theory Spec2Isabelle
  imports Complex_Main "HOL-Library.Word"
begin

unbundle bit_operations_syntax

section \<open>Receiver: the Wi-Fi event handler\<close>

text \<open>
  The handler is registered for every \<open>WIFI_EVENT\<close> and for \<open>IP_EVENT_STA_GOT_IP\<close>.
  It looks at three events; every other Wi-Fi event falls through all branches.
\<close>

datatype wifi_event =
    WIFI_EVENT_STA_START
  | WIFI_EVENT_STA_DISCONNECTED
  | IP_EVENT_STA_GOT_IP
  | WIFI_EVENT_OTHER

type_synonym EventBits_t = "32 word"

definition WIFI_CONNECTED_BIT :: EventBits_t where
  "WIFI_CONNECTED_BIT = 1"

definition WIFI_FAIL_BIT :: EventBits_t where
  "WIFI_FAIL_BIT = 2"

text \<open>
  The globals the handler touches: the retry counter \<open>s_retry\<close> (a C \<open>int\<close>, starting
  at 0), the bits of the event group, and, as an observable effect, how many times
  \<open>esp_wifi_connect\<close> has been called.
\<close>

record wifi_state =
  s_retry :: int
  s_wifi_event_group :: EventBits_t
  connect_calls :: nat

definition xEventGroupSetBits :: "EventBits_t \<Rightarrow> EventBits_t \<Rightarrow> EventBits_t" where
  "xEventGroupSetBits g b = g OR b"

definition esp_wifi_connect :: "wifi_state \<Rightarrow> wifi_state" where
  "esp_wifi_connect st = st\<lparr>connect_calls := Suc (connect_calls st)\<rparr>"

fun wifi_event_handler :: "wifi_state \<Rightarrow> wifi_event \<Rightarrow> wifi_state" where
  "wifi_event_handler st WIFI_EVENT_STA_START = esp_wifi_connect st"
| "wifi_event_handler st WIFI_EVENT_STA_DISCONNECTED =
     (if s_retry st < 5
      then (esp_wifi_connect st)\<lparr>s_retry := s_retry st + 1\<rparr>
      else st\<lparr>s_wifi_event_group := xEventGroupSetBits (s_wifi_event_group st) WIFI_FAIL_BIT\<rparr>)"
| "wifi_event_handler st IP_EVENT_STA_GOT_IP =
     st\<lparr>s_retry := 0,
        s_wifi_event_group := xEventGroupSetBits (s_wifi_event_group st) WIFI_CONNECTED_BIT\<rparr>"
| "wifi_event_handler st WIFI_EVENT_OTHER = st"

text \<open>The state \<open>wifi_init_sta\<close> starts from: a fresh event group, \<open>s_retry = 0\<close>.\<close>

definition wifi_boot :: wifi_state where
  "wifi_boot = \<lparr>s_retry = 0, s_wifi_event_group = 0, connect_calls = 0\<rparr>"

definition wifi_run :: "wifi_state \<Rightarrow> wifi_event list \<Rightarrow> wifi_state" where
  "wifi_run st evs = foldl wifi_event_handler st evs"

text \<open>
  What \<open>task_rx\<close> reads before publishing (\<open>bits & WIFI_CONNECTED_BIT\<close>), and the
  failure signal \<open>wifi_init_sta\<close> waits for.
\<close>

definition link_up :: "wifi_state \<Rightarrow> bool" where
  "link_up st = (s_wifi_event_group st AND WIFI_CONNECTED_BIT \<noteq> 0)"


text \<open>The retry ceiling is the literal of the test \<open>s_retry < 5\<close>.\<close>

definition MAX_RETRIES :: int where
  "MAX_RETRIES = 5"


subsection \<open>The connectivity state machine as the specification words it\<close>

text \<open>
  Section 4.6 of the specification: on process start enter \<open>Connecting\<close>; a drop while
  the counter is below the ceiling increments it and stays \<open>Connecting\<close>; a drop at the
  ceiling moves to \<open>Failed\<close>; address-acquired resets the counter and moves to
  \<open>Connected\<close>. This definition follows the specification, not the code.
\<close>

datatype ConnectivityState = Disconnected | Connecting | Connected | Failed

fun spec_connectivity_step :: "ConnectivityState \<times> int \<Rightarrow> wifi_event \<Rightarrow> ConnectivityState \<times> int" where
  "spec_connectivity_step (c, n) WIFI_EVENT_STA_START = (Connecting, n)"
| "spec_connectivity_step (c, n) WIFI_EVENT_STA_DISCONNECTED =
     (if n < MAX_RETRIES then (Connecting, n + 1) else (Failed, n))"
| "spec_connectivity_step (c, n) IP_EVENT_STA_GOT_IP = (Connected, 0)"
| "spec_connectivity_step (c, n) WIFI_EVENT_OTHER = (c, n)"

definition spec_connectivity_run :: "wifi_event list \<Rightarrow> ConnectivityState \<times> int" where
  "spec_connectivity_run evs = foldl spec_connectivity_step (Disconnected, 0) evs"


section \<open>The C library's \<open>strtof\<close>\<close>

text \<open>
  \<open>parse_payload\<close> reads both numbers with \<open>strtof\<close>. The model follows the C
  standard (7.22.1.3): skip white space, take an optional sign, then the longest text
  that is a decimal number (digits with an optional point and an optional exponent), a
  hexadecimal number, \<open>inf\<close>/\<open>infinity\<close> or \<open>nan\<close>/\<open>nan(...)\<close>. The function returns
  the value and the rest of the string (the \<open>endptr\<close>). When no number can be read the
  value is zero and the rest is the whole input.

  The exact number read is a \<open>number\<close>: \<open>Num neg q\<close> is the magnitude \<open>q\<close> with
  its sign (\<open>neg\<close> for a leading minus), \<open>Infinity neg\<close> a signed infinity. The
  library rounds it to a binary32 \<open>float\<close>; that rounding is the parameter \<open>cv\<close> of
  \<open>strtof\<close>, so that everything proved below holds for whatever the conversion is.
\<close>

datatype number = Num bool rat | Infinity bool | NotANumber

definition isspace :: "char \<Rightarrow> bool" where
  "isspace c = (c = CHR '' '' \<or> (9 \<le> (of_char c :: nat) \<and> (of_char c :: nat) \<le> 13))"

definition isdigit :: "char \<Rightarrow> bool" where
  "isdigit c = (48 \<le> (of_char c :: nat) \<and> (of_char c :: nat) \<le> 57)"

definition tolower :: "char \<Rightarrow> char" where
  "tolower c = (if 65 \<le> (of_char c :: nat) \<and> (of_char c :: nat) \<le> 90
                then char_of ((of_char c :: nat) + 32) else c)"

definition isxdigit :: "char \<Rightarrow> bool" where
  "isxdigit c = (isdigit c \<or> (97 \<le> (of_char (tolower c) :: nat) \<and> (of_char (tolower c) :: nat) \<le> 102))"

definition isnchar :: "char \<Rightarrow> bool" where
  "isnchar c = (isdigit c \<or> c = CHR ''_''
                \<or> (97 \<le> (of_char (tolower c) :: nat) \<and> (of_char (tolower c) :: nat) \<le> 122))"

definition digit_value :: "char \<Rightarrow> nat" where
  "digit_value c = (if isdigit c then (of_char c :: nat) - 48 else (of_char (tolower c) :: nat) - 87)"

definition digits_value :: "nat \<Rightarrow> string \<Rightarrow> nat" where
  "digits_value base ds = foldl (\<lambda>a c. a * base + digit_value c) 0 ds"

definition scale :: "rat \<Rightarrow> nat \<Rightarrow> int \<Rightarrow> rat" where
  "scale q b e = (if 0 \<le> e then q * of_nat b ^ nat e else q / of_nat b ^ nat (- e))"

definition scan_sign :: "string \<Rightarrow> bool \<times> string" where
  "scan_sign s =
     (case s of
        [] \<Rightarrow> (False, s)
      | c # r \<Rightarrow> if c = CHR ''-'' then (True, r) else if c = CHR ''+'' then (False, r) else (False, s))"

text \<open>An exponent part is read only when at least one digit follows the marker and sign.\<close>

definition scan_exponent :: "string \<Rightarrow> string \<Rightarrow> int \<times> string" where
  "scan_exponent marks s =
     (case s of
        [] \<Rightarrow> (0, s)
      | c # r \<Rightarrow>
          if c \<in> set marks then
            (let (neg, r') = scan_sign r; ds = takeWhile isdigit r' in
             if ds = [] then (0, s)
             else ((if neg then - int (digits_value 10 ds) else int (digits_value 10 ds)),
                   dropWhile isdigit r'))
          else (0, s))"

definition scan_fraction :: "(char \<Rightarrow> bool) \<Rightarrow> string \<Rightarrow> string \<times> string" where
  "scan_fraction isd s =
     (case s of
        [] \<Rightarrow> ([], s)
      | c # r \<Rightarrow> if c = CHR ''.'' then (takeWhile isd r, dropWhile isd r) else ([], s))"

definition scan_decimal :: "string \<Rightarrow> (rat \<times> string) option" where
  "scan_decimal s =
     (let ip = takeWhile isdigit s;
          (fp, r2) = scan_fraction isdigit (dropWhile isdigit s)
      in if ip = [] \<and> fp = [] then None
         else (let (e, r3) = scan_exponent ''eE'' r2
               in Some (scale (of_nat (digits_value 10 (ip @ fp))) 10 (e - int (length fp)), r3)))"

definition scan_hex :: "string \<Rightarrow> (rat \<times> string) option" where
  "scan_hex s =
     (case s of
        c0 # cx # r \<Rightarrow>
          if c0 = CHR ''0'' \<and> tolower cx = CHR ''x'' then
            (let ip = takeWhile isxdigit r;
                 (fp, r2) = scan_fraction isxdigit (dropWhile isxdigit r)
             in if ip = [] \<and> fp = [] then None
                else (let (e, r3) = scan_exponent ''pP'' r2
                      in Some (scale (of_nat (digits_value 16 (ip @ fp))) 2 (e - 4 * int (length fp)), r3)))
          else None
      | _ \<Rightarrow> None)"

definition scan_special :: "bool \<Rightarrow> string \<Rightarrow> (number \<times> string) option" where
  "scan_special neg s =
     (if map tolower (take 8 s) = ''infinity'' then Some (Infinity neg, drop 8 s)
      else if map tolower (take 3 s) = ''inf'' then Some (Infinity neg, drop 3 s)
      else if map tolower (take 3 s) = ''nan'' then
        (case drop 3 s of
           c # r \<Rightarrow>
             if c = CHR ''('' then
               (case dropWhile isnchar r of
                  d # r' \<Rightarrow> if d = CHR '')'' then Some (NotANumber, r') else Some (NotANumber, drop 3 s)
                | [] \<Rightarrow> Some (NotANumber, drop 3 s))
             else Some (NotANumber, drop 3 s)
         | [] \<Rightarrow> Some (NotANumber, drop 3 s))
      else None)"

definition strtof :: "(number \<Rightarrow> 'f) \<Rightarrow> string \<Rightarrow> 'f \<times> string" where
  "strtof cv s =
     (let (neg, u) = scan_sign (dropWhile isspace s) in
      case scan_special neg u of
        Some (x, r) \<Rightarrow> (cv x, r)
      | None \<Rightarrow>
          (case scan_hex u of
             Some (q, r) \<Rightarrow> (cv (Num neg q), r)
           | None \<Rightarrow>
               (case scan_decimal u of
                  Some (q, r) \<Rightarrow> (cv (Num neg q), r)
                | None \<Rightarrow> (cv (Num False 0), s))))"

section \<open>Receiver: \<open>parse_payload\<close>\<close>

text \<open>
  The two results go through pointers. A pointer is \<open>None\<close> (\<open>NULL\<close>) or the address of
  a \<open>float\<close> object; the memory is a map from addresses to values, so that two pointers
  to the same object alias as in C. The string is the C string: the bytes before the
  first NUL. \<open>*end\<close> at the end of the string is that NUL, which is not a comma.
\<close>

type_synonym addr = nat

definition store_float :: "addr option \<Rightarrow> 'f \<Rightarrow> (addr \<Rightarrow> 'f) \<Rightarrow> (addr \<Rightarrow> 'f)" where
  "store_float p x mem = (case p of None \<Rightarrow> mem | Some a \<Rightarrow> mem(a := x))"

definition parse_payload ::
  "(number \<Rightarrow> 'f) \<Rightarrow> string \<Rightarrow> addr option \<Rightarrow> addr option \<Rightarrow> (addr \<Rightarrow> 'f) \<Rightarrow> bool \<times> (addr \<Rightarrow> 'f)" where
  "parse_payload cv s out_tds out_v mem =
     (if take 3 s \<noteq> ''TD,'' then (False, mem)
      else
        (let (ppm, end') = strtof cv (drop 3 s) in
         case end' of
           [] \<Rightarrow> (False, mem)
         | c # rest \<Rightarrow>
             if c \<noteq> CHR '','' then (False, mem)
             else
               (let (volt, _) = strtof cv rest
                in (True, store_float out_v volt (store_float out_tds ppm mem)))))"

text \<open>
  The call \<open>task_rx\<close> makes: two locals \<open>ppm\<close> and \<open>v\<close>, both 0, at two distinct
  addresses; the decoded pair is what they hold after a successful call.
\<close>

definition decode :: "(number \<Rightarrow> 'f) \<Rightarrow> string \<Rightarrow> ('f \<times> 'f) option" where
  "decode cv s =
     (let (ok, mem) = parse_payload cv s (Some 0) (Some 1) (\<lambda>a. cv (Num False 0))
      in if ok then Some (mem 0, mem 1) else None)"


section \<open>The FreeRTOS tick clock\<close>

text \<open>
  Both programs read the time as \<open>(uint32_t)(xTaskGetTickCount() * portTICK_PERIOD_MS)\<close>
  and sleep with \<open>vTaskDelay(pdMS_TO_TICKS(ms))\<close>. The two macros are defined from the
  tick rate \<open>hz\<close> (\<open>configTICK_RATE_HZ\<close>) as FreeRTOS defines them; the tick counter and
  the product are unsigned 32-bit.
\<close>

definition portTICK_PERIOD_MS :: "nat \<Rightarrow> 32 word" where
  "portTICK_PERIOD_MS hz = word_of_nat (1000 div hz)"

definition pdMS_TO_TICKS :: "nat \<Rightarrow> nat \<Rightarrow> 32 word" where
  "pdMS_TO_TICKS hz ms = word_of_nat (ms * hz div 1000)"

definition tick_ms :: "nat \<Rightarrow> 32 word \<Rightarrow> 32 word" where
  "tick_ms hz ticks = ticks * portTICK_PERIOD_MS hz"

section \<open>Receiver: \<open>task_rx\<close> and the inactivity watchdog\<close>

text \<open>
  One packet of the loop of \<open>task_rx\<close>, once \<open>lora_received()\<close> is true. \<open>pkt\<close> is the
  bytes \<open>lora_receive_packet\<close> wrote and \<open>rxLen\<close> their number; \<open>buf[rxLen] = 0\<close> ends
  the C string, which stops at an earlier NUL byte if the packet has one. \<open>now\<close> is the
  reading \<open>(uint32_t)(xTaskGetTickCount() * portTICK_PERIOD_MS)\<close>, \<open>bits\<close> what
  \<open>xEventGroupGetBits\<close> returns, \<open>http_ok\<close> whether \<open>http_send_thingspeak\<close> returns
  \<open>ESP_OK\<close>. The result is the new \<open>s_last_ok_rx_ms\<close>, whether \<open>esp_restart\<close> is called,
  and the pair handed to \<open>http_send_thingspeak\<close>, if any.
\<close>

definition cstring :: "string \<Rightarrow> string" where
  "cstring bytes = takeWhile (\<lambda>c. c \<noteq> CHR 0x00) bytes"












section \<open>Transmitter (the sensor node)\<close>

subsection \<open>\<open>float\<close> arithmetic\<close>

text \<open>
  Every finite \<open>float\<close> is a rational number, and every arithmetic operation on
  \<open>float\<close>s gives the exact result rounded to a \<open>float\<close>. The rounding is the parameter
  \<open>fl\<close>; a literal such as \<open>133.42f\<close> is \<open>fl (13342 / 100)\<close>. Infinities and NaN do
  not arise from the bounded integer inputs of the sampling code and are not modelled:
  the divisors are 32, 4095 and the compensation coefficient, which is 1 at the fixed
  temperature of 25 degrees.
\<close>

definition fadd :: "(rat \<Rightarrow> rat) \<Rightarrow> rat \<Rightarrow> rat \<Rightarrow> rat" where
  "fadd fl a b = fl (a + b)"

definition fsub :: "(rat \<Rightarrow> rat) \<Rightarrow> rat \<Rightarrow> rat \<Rightarrow> rat" where
  "fsub fl a b = fl (a - b)"

definition fmul :: "(rat \<Rightarrow> rat) \<Rightarrow> rat \<Rightarrow> rat \<Rightarrow> rat" where
  "fmul fl a b = fl (a * b)"

definition fdiv :: "(rat \<Rightarrow> rat) \<Rightarrow> rat \<Rightarrow> rat \<Rightarrow> rat" where
  "fdiv fl a b = fl (a / b)"

definition VREF :: "(rat \<Rightarrow> rat) \<Rightarrow> rat" where
  "VREF fl = fl (33 / 10)"

definition SAMPLES :: nat where
  "SAMPLES = 32"

definition TEMPERATURE_C :: "(rat \<Rightarrow> rat) \<Rightarrow> rat" where
  "TEMPERATURE_C fl = fl 25"

subsection \<open>\<open>read_tds_ppm\<close>\<close>

text \<open>
  \<open>ESP_ERROR_CHECK\<close> (ESP-IDF) calls \<open>abort()\<close> when its argument is not \<open>ESP_OK\<close>;
  the function it stands in does not continue. \<open>adc i\<close> is what the \<open>i\<close>-th call of
  \<open>adc_oneshot_read\<close> gives: \<open>None\<close> for an error code, \<open>Some raw\<close> for a reading.
  The sum of the 32 readings is a C \<open>int\<close>; the converter is configured for 12 bits, so
  the sum of its readings is far from overflow and the model adds integers.
\<close>

datatype fault = Aborted

fun sample_loop :: "(nat \<Rightarrow> int option) \<Rightarrow> nat \<Rightarrow> nat \<Rightarrow> int \<Rightarrow> fault + int" where
  "sample_loop adc i 0 acc = Inr acc"
| "sample_loop adc i (Suc k) acc =
     (case adc i of
        None \<Rightarrow> Inl Aborted
      | Some raw \<Rightarrow> sample_loop adc (Suc i) k (acc + raw))"

definition comp_voltage_of :: "(rat \<Rightarrow> rat) \<Rightarrow> rat \<Rightarrow> rat" where
  "comp_voltage_of fl voltage =
     (let comp_coeff = fadd fl (fl 1) (fmul fl (fl (2 / 100)) (fsub fl (TEMPERATURE_C fl) (fl 25)))
      in fdiv fl voltage comp_coeff)"

text \<open>The calibration polynomial, evaluated left to right as C does, before the clamp.\<close>

definition tds_polynomial :: "(rat \<Rightarrow> rat) \<Rightarrow> rat \<Rightarrow> rat" where
  "tds_polynomial fl cv =
     fmul fl
       (fadd fl
          (fsub fl
             (fmul fl (fmul fl (fmul fl (fl (13342 / 100)) cv) cv) cv)
             (fmul fl (fmul fl (fl (25586 / 100)) cv) cv))
          (fmul fl (fl (85739 / 100)) cv))
       (fl (1 / 2))"

definition voltage_of_sum :: "(rat \<Rightarrow> rat) \<Rightarrow> int \<Rightarrow> rat" where
  "voltage_of_sum fl acc =
     (let raw_avg = fdiv fl (fl (of_int acc)) (fl (of_nat SAMPLES))
      in fmul fl raw_avg (fdiv fl (VREF fl) (fl 4095)))"

definition read_tds_ppm :: "(rat \<Rightarrow> rat) \<Rightarrow> (nat \<Rightarrow> int option) \<Rightarrow> fault + rat \<times> rat" where
  "read_tds_ppm fl adc =
     (case sample_loop adc 0 SAMPLES 0 of
        Inl f \<Rightarrow> Inl f
      | Inr acc \<Rightarrow>
          (let voltage = voltage_of_sum fl acc;
               tds = tds_polynomial fl (comp_voltage_of fl voltage)
           in Inr (if tds < 0 then 0 else tds, voltage)))"

subsection \<open>The payload text: \<open>snprintf(buf, sizeof(buf), "TD,%.0f,%.2f", tds, v)\<close>\<close>

text \<open>
  \<open>%.0f\<close> and \<open>%.2f\<close> print the exact value of the argument rounded to 0 and to 2
  decimals, ties to even (the C library's default rounding), with a minus sign for a
  negative argument. \<open>snprintf\<close> writes at most \<open>size - 1\<close> characters and returns the
  length the whole text would have; a negative return is an output error, after which
  the code does not use the buffer.
\<close>

definition round_half_even :: "rat \<Rightarrow> int" where
  "round_half_even x =
     (let f = \<lfloor>x\<rfloor>; d = x - of_int f
      in if d < 1 / 2 then f
         else if 1 / 2 < d then f + 1
         else if even f then f else f + 1)"

definition digit_char :: "nat \<Rightarrow> char" where
  "digit_char d = char_of (48 + d)"

fun decimal :: "nat \<Rightarrow> string" where
  "decimal n = (if n < 10 then [digit_char n] else decimal (n div 10) @ [digit_char (n mod 10)])"

definition sign_text :: "rat \<Rightarrow> string" where
  "sign_text x = (if x < 0 then ''-'' else [])"

definition format_f0 :: "rat \<Rightarrow> string" where
  "format_f0 x = sign_text x @ decimal (nat (round_half_even \<bar>x\<bar>))"

definition format_f2 :: "rat \<Rightarrow> string" where
  "format_f2 x =
     (let r = nat (round_half_even (\<bar>x\<bar> * 100))
      in sign_text x @ decimal (r div 100) @ CHR ''.'' # [digit_char (r div 10 mod 10), digit_char (r mod 10)])"

definition payload_text :: "rat \<Rightarrow> rat \<Rightarrow> string" where
  "payload_text tds v = ''TD,'' @ format_f0 tds @ CHR '','' # format_f2 v"

definition snprintf_payload :: "bool \<Rightarrow> nat \<Rightarrow> rat \<Rightarrow> rat \<Rightarrow> string \<times> int" where
  "snprintf_payload output_error bufsize tds v =
     (if output_error then ([], - 1)
      else (take (bufsize - 1) (payload_text tds v), int (length (payload_text tds v))))"

subsection \<open>\<open>lora_send_burst\<close>\<close>

text \<open>
  The loop reads the millisecond clock \<open>tick_ms\<close>. The tick counter moves while the
  task is in \<open>lora_send_packet\<close> (by \<open>cost\<close> ticks, which depends on the radio
  library) and in \<open>vTaskDelay\<close> (by the ticks asked for). The function returns how
  many packets it has sent and the tick count at which it returns; a loop that never
  ends has no result.
\<close>

definition TX_BURST_WINDOW_MS :: "32 word" where
  "TX_BURST_WINDOW_MS = 5000"

definition TX_BURST_GAP_MS :: nat where
  "TX_BURST_GAP_MS = 500"

partial_function (option) burst_loop ::
  "nat \<Rightarrow> nat \<Rightarrow> 32 word \<Rightarrow> 32 word \<Rightarrow> nat \<Rightarrow> (nat \<times> 32 word) option" where
  "burst_loop hz cost start ticks sent =
     (if tick_ms hz ticks - start < TX_BURST_WINDOW_MS
      then burst_loop hz cost start
             (ticks + word_of_nat cost + pdMS_TO_TICKS hz TX_BURST_GAP_MS) (Suc sent)
      else Some (sent, ticks))"

definition lora_send_burst :: "nat \<Rightarrow> nat \<Rightarrow> 32 word \<Rightarrow> (nat \<times> 32 word) option" where
  "lora_send_burst hz cost ticks = burst_loop hz cost (tick_ms hz ticks) ticks 0"

subsection \<open>\<open>go_to_sleep\<close> and \<open>app_main\<close>\<close>

text \<open>
  What one boot of the transmitter does, as the list of its actions on the hardware.
  The environment gives the result of every call that can fail or vary. Logging (the
  wake cause, the sent text, the lost-packet count) changes nothing and is left out;
  \<open>LoraConfigure\<close> stands for the calls that set frequency, CRC and the PHY parameters.
  \<open>esp_deep_sleep_start\<close> does not return, and neither does \<open>abort\<close>: both end the list.
\<close>

datatype tx_action =
    LoraInit
  | LoraConfigure
  | AdcInit
  | Sample
  | Encode
  | SendPacket string int
  | BurstUnfinished
  | GraceDelay
  | TimerWakeup nat
  | AdcDeinit
  | DeepSleep
  | Abort

record tx_env =
  lora_init_result :: int
  adc_new_unit_ok :: bool
  adc_config_ok :: bool
  adc_read :: "nat \<Rightarrow> int option"
  snprintf_error :: bool
  timer_wakeup_ok :: bool
  tick_rate_hz :: nat
  send_cost :: nat
  boot_ticks :: "32 word"

definition SLEEP_US :: nat where
  "SLEEP_US = 30 * 1000000"

text \<open>\<open>adc_open\<close> says whether \<open>s_adc\<close> holds a handle (\<open>adc_deinit\<close> tests it).\<close>

definition go_to_sleep :: "tx_env \<Rightarrow> bool \<Rightarrow> tx_action list" where
  "go_to_sleep env adc_open =
     (if \<not> timer_wakeup_ok env then [Abort]
      else [TimerWakeup SLEEP_US] @ (if adc_open then [AdcDeinit] else []) @ [DeepSleep])"

text \<open>The part of \<open>app_main\<close> from \<open>snprintf\<close> to the end, for a measurement \<open>(tds, v)\<close>.\<close>

definition encode_and_send :: "tx_env \<Rightarrow> rat \<Rightarrow> rat \<Rightarrow> tx_action list" where
  "encode_and_send env tds v =
     (let (buf, n) = snprintf_payload (snprintf_error env) 64 tds v;
          len = (if n < 0 then 0 else n)
      in Encode #
         (if 0 < len then
            (case lora_send_burst (tick_rate_hz env) (send_cost env) (boot_ticks env) of
               None \<Rightarrow> [BurstUnfinished]
             | Some (sent, _) \<Rightarrow>
                 replicate sent (SendPacket buf len) @ GraceDelay # go_to_sleep env True)
          else GraceDelay # go_to_sleep env True))"

definition app_main :: "(rat \<Rightarrow> rat) \<Rightarrow> tx_env \<Rightarrow> tx_action list" where
  "app_main fl env =
     LoraInit #
     (if lora_init_result env = 0 then go_to_sleep env False
      else
        LoraConfigure # AdcInit #
        (if \<not> adc_new_unit_ok env \<or> \<not> adc_config_ok env then [Abort]
         else
           Sample #
           (case read_tds_ppm fl (adc_read env) of
              Inl f \<Rightarrow> [Abort]
            | Inr (tds, v) \<Rightarrow> encode_and_send env tds v)))"

text \<open>
  The properties of binary32 rounding the length bound rests on: it is monotone, and it
  leaves 0 and the powers of two up to \<open>2 ^ 64\<close> as they are.
\<close>

definition rounding :: "(rat \<Rightarrow> rat) \<Rightarrow> bool" where
  "rounding fl = (mono fl \<and> fl 0 = 0 \<and> (\<forall>k\<le>64. fl (2 ^ k) = 2 ^ k))"

definition in_range :: "(nat \<Rightarrow> int option) \<Rightarrow> bool" where
  "in_range adc = (\<forall>i<SAMPLES. \<exists>raw. adc i = Some raw \<and> 0 \<le> raw \<and> raw \<le> 4095)"

declare decimal.simps [simp del]

text \<open>An environment in which every call succeeds, at 100 ticks per second, for the examples.\<close>

definition env_ok :: tx_env where
  "env_ok = \<lparr>lora_init_result = 1, adc_new_unit_ok = True, adc_config_ok = True,
     adc_read = (\<lambda>i. Some 1000), snprintf_error = False, timer_wakeup_ok = True,
     tick_rate_hz = 100, send_cost = 0, boot_ticks = 30\<rparr>"


section \<open>Lemmas\<close>

subsection \<open>Event bits\<close>

lemma bit_two_word: "bit (2 :: 32 word) n \<longleftrightarrow> n = 1"
  by (cases n; cases "n - 1") (simp_all add: bit_Suc bit_0)


lemma connected_keeps_fail: "(g OR WIFI_CONNECTED_BIT) AND WIFI_FAIL_BIT = g AND WIFI_FAIL_BIT"
  unfolding WIFI_FAIL_BIT_def WIFI_CONNECTED_BIT_def
  by (rule bit_word_eqI) (auto simp add: bit_and_iff bit_or_iff bit_1_iff bit_two_word)















subsection \<open>Reading digits\<close>

lemma isdigit_facts:
  assumes "isdigit c"
  shows "\<not> isspace c" "c \<noteq> CHR ''-''" "c \<noteq> CHR ''+''" "c \<noteq> CHR ''.''" "c \<noteq> CHR '',''"
    "tolower c = c" "c \<noteq> CHR ''i''" "c \<noteq> CHR ''n''" "c \<noteq> CHR ''x''"
    "c \<noteq> CHR ''e''" "c \<noteq> CHR ''E''"
  using assms by (auto simp add: isdigit_def isspace_def tolower_def)

lemma comma_facts:
  "\<not> isdigit CHR '',''" "\<not> isspace CHR '',''" "tolower CHR '','' = CHR '',''" "\<not> isxdigit CHR '',''"
  by (simp_all add: isdigit_def isspace_def tolower_def isxdigit_def)

lemma point_facts:
  "\<not> isdigit CHR ''.''" "tolower CHR ''.'' = CHR ''.''"
  by (simp_all add: isdigit_def tolower_def)

lemma takeWhile_digits_stop:
  "\<forall>c\<in>set ds. isdigit c \<Longrightarrow> \<not> isdigit x \<Longrightarrow> takeWhile isdigit (ds @ x # t) = ds"
  by (simp add: takeWhile_append2)

lemma dropWhile_digits_stop:
  "\<forall>c\<in>set ds. isdigit c \<Longrightarrow> \<not> isdigit x \<Longrightarrow> dropWhile isdigit (ds @ x # t) = x # t"
  by (simp add: dropWhile_append2)

lemma takeWhile_digits_all: "\<forall>c\<in>set ds. isdigit c \<Longrightarrow> takeWhile isdigit ds = ds"
  by (simp add: takeWhile_eq_all_conv)

lemma dropWhile_digits_all: "\<forall>c\<in>set ds. isdigit c \<Longrightarrow> dropWhile isdigit ds = []"
  by simp

lemma scan_decimal_integer:
  assumes "ds \<noteq> []" and "\<forall>c\<in>set ds. isdigit c"
  shows "scan_decimal (ds @ CHR '','' # t) = Some (of_nat (digits_value 10 ds), CHR '','' # t)"
  using assms
  by (simp add: scan_decimal_def takeWhile_digits_stop dropWhile_digits_stop comma_facts
      scan_fraction_def scan_exponent_def scale_def)

lemma scan_decimal_fraction:
  assumes "ip \<noteq> []" and "\<forall>c\<in>set ip. isdigit c" and "\<forall>c\<in>set fp. isdigit c"
  shows "scan_decimal (ip @ CHR ''.'' # fp) =
         Some (scale (of_nat (digits_value 10 (ip @ fp))) 10 (- int (length fp)), [])"
  using assms
  by (simp add: scan_decimal_def takeWhile_digits_stop dropWhile_digits_stop point_facts
      scan_fraction_def scan_exponent_def takeWhile_digits_all dropWhile_digits_all)

lemma scan_decimal_empty: "scan_decimal (CHR '','' # t) = None"
  by (simp add: scan_decimal_def scan_fraction_def comma_facts)

text \<open>A string that starts with a digit is read by the decimal scanner, unless it starts \<open>0x\<close>.\<close>

lemma strtof_digit_led:
  assumes d: "isdigit d"
    and nohex: "scan_hex (d # r) = None"
    and dec: "scan_decimal (d # r) = Some (q, r')"
  shows "strtof cv (d # r) = (cv (Num False q), r')"
proof -
  have sp: "dropWhile isspace (d # r) = d # r"
    using isdigit_facts(1) [OF d] by simp
  have sg: "scan_sign (d # r) = (False, d # r)"
    using isdigit_facts(2,3) [OF d] by (simp add: scan_sign_def)
  have spc: "scan_special False (d # r) = None"
    using isdigit_facts(6,7,8) [OF d] by (simp add: scan_special_def)
  show ?thesis
    unfolding strtof_def sp sg by (simp add: spc nohex dec)
qed

lemma scan_hex_digits_comma:
  assumes "ds \<noteq> []" and "\<forall>c\<in>set ds. isdigit c"
  shows "scan_hex (ds @ CHR '','' # t) = None"
proof (cases ds)
  case Nil
  with assms show ?thesis by simp
next
  case (Cons d ds')
  show ?thesis
  proof (cases ds')
    case Nil
    with Cons show ?thesis by (simp add: scan_hex_def comma_facts)
  next
    case (Cons e ds'')
    with \<open>ds = d # ds'\<close> assms(2) have "isdigit e" by simp
    from isdigit_facts(6,9) [OF this] Cons \<open>ds = d # ds'\<close> show ?thesis
      by (simp add: scan_hex_def)
  qed
qed

lemma scan_hex_digits_point:
  assumes "ip \<noteq> []" and "\<forall>c\<in>set ip. isdigit c"
  shows "scan_hex (ip @ CHR ''.'' # fp) = None"
proof (cases ip)
  case Nil
  with assms show ?thesis by simp
next
  case (Cons d ds')
  show ?thesis
  proof (cases ds')
    case Nil
    with Cons show ?thesis by (simp add: scan_hex_def point_facts)
  next
    case (Cons e ds'')
    with \<open>ip = d # ds'\<close> assms(2) have "isdigit e" by simp
    from isdigit_facts(6,9) [OF this] Cons \<open>ip = d # ds'\<close> show ?thesis
      by (simp add: scan_hex_def)
  qed
qed

lemma strtof_integer_field:
  assumes "ds \<noteq> []" and "\<forall>c\<in>set ds. isdigit c"
  shows "strtof cv (ds @ CHR '','' # t) = (cv (Num False (of_nat (digits_value 10 ds))), CHR '','' # t)"
proof -
  from assms obtain d r where ds: "ds = d # r" and d: "isdigit d"
    by (cases ds) auto
  have "strtof cv (d # (r @ CHR '','' # t)) =
        (cv (Num False (of_nat (digits_value 10 ds))), CHR '','' # t)"
    using scan_hex_digits_comma [OF assms, of t] scan_decimal_integer [OF assms, of t]
    by (intro strtof_digit_led [OF d]) (simp_all add: ds)
  then show ?thesis by (simp add: ds)
qed

lemma strtof_fraction_field:
  assumes "ip \<noteq> []" and "\<forall>c\<in>set ip. isdigit c" and "\<forall>c\<in>set fp. isdigit c"
  shows "strtof cv (ip @ CHR ''.'' # fp) =
         (cv (Num False (scale (of_nat (digits_value 10 (ip @ fp))) 10 (- int (length fp)))), [])"
proof -
  from assms obtain d r where ip: "ip = d # r" and d: "isdigit d"
    by (cases ip) auto
  have "strtof cv (d # (r @ CHR ''.'' # fp)) =
        (cv (Num False (scale (of_nat (digits_value 10 (ip @ fp))) 10 (- int (length fp)))), [])"
    using scan_hex_digits_point [OF assms(1,2), of fp] scan_decimal_fraction [OF assms]
    by (intro strtof_digit_led [OF d]) (simp_all add: ip)
  then show ?thesis by (simp add: ip)
qed

lemma strtof_no_number: "strtof cv (CHR '','' # t) = (cv (Num False 0), CHR '','' # t)"
  by (cases t) (simp_all add: strtof_def comma_facts scan_sign_def scan_special_def scan_hex_def
      scan_decimal_empty tolower_def)

subsection \<open>\<open>parse_payload\<close>\<close>

lemma parse_payload_prefix: "parse_payload cv (''TD,'' @ s) p q mem =
  (case strtof cv s of
     (ppm, []) \<Rightarrow> (False, mem)
   | (ppm, c # rest) \<Rightarrow>
       if c \<noteq> CHR '','' then (False, mem)
       else (True, store_float q (fst (strtof cv rest)) (store_float p ppm mem)))"
  by (simp add: parse_payload_def split: prod.splits list.splits)

lemma decode_prefix: "decode cv (''TD,'' @ s) =
  (case strtof cv s of
     (ppm, []) \<Rightarrow> None
   | (ppm, c # rest) \<Rightarrow> if c \<noteq> CHR '','' then None else Some (ppm, fst (strtof cv rest)))"
  unfolding decode_def parse_payload_prefix
  by (simp add: store_float_def split: prod.splits list.splits)

lemma decode_integer_field:
  assumes "ds \<noteq> []" and "\<forall>c\<in>set ds. isdigit c"
  shows "decode cv (''TD,'' @ ds @ CHR '','' # t) =
         Some (cv (Num False (of_nat (digits_value 10 ds))), fst (strtof cv t))"
  unfolding decode_prefix by (simp add: strtof_integer_field [OF assms])

lemma decode_fails_iff:
  "decode cv s = None \<longleftrightarrow>
     take 3 s \<noteq> ''TD,'' \<or> (\<forall>r. snd (strtof cv (drop 3 s)) \<noteq> CHR '','' # r)"
  by (auto simp add: decode_def parse_payload_def split: prod.splits list.splits)

subsection \<open>The inactivity watchdog\<close>













subsection \<open>Sampling\<close>

lemma sample_loop_total:
  "\<forall>j<k. adc (i + j) \<noteq> None \<Longrightarrow> \<exists>s. sample_loop adc i k acc = Inr s"
proof (induction k arbitrary: i acc)
  case 0
  show ?case by simp
next
  case (Suc k)
  from Suc.prems have "adc (i + 0) \<noteq> None" by blast
  then obtain raw where raw: "adc i = Some raw" by auto
  have "\<forall>j<k. adc (Suc i + j) \<noteq> None"
    using Suc.prems by (metis Suc_less_eq add_Suc_shift)
  from Suc.IH [OF this] raw show ?case by simp
qed

lemma read_tds_ppm_total:
  assumes "\<forall>i<SAMPLES. adc i \<noteq> None"
  shows "\<exists>tds v. read_tds_ppm fl adc = Inr (tds, v)"
proof -
  from assms have "\<forall>j<SAMPLES. adc (0 + j) \<noteq> None" by simp
  from sample_loop_total [OF this] obtain s where "sample_loop adc 0 SAMPLES 0 = Inr s" by blast
  then show ?thesis by (simp add: read_tds_ppm_def Let_def)
qed

lemma read_tds_ppm_clamped:
  assumes "read_tds_ppm fl adc = Inr (tds, v)"
  shows "0 \<le> tds"
    and "tds = (if tds_polynomial fl (comp_voltage_of fl v) < 0 then 0
                else tds_polynomial fl (comp_voltage_of fl v))"
  using assms by (auto simp add: read_tds_ppm_def Let_def split: sum.splits if_splits)


lemmas float_eval = voltage_of_sum_def comp_voltage_of_def tds_polynomial_def
  fadd_def fsub_def fmul_def fdiv_def VREF_def TEMPERATURE_C_def


subsection \<open>The duty cycle\<close>

lemma go_to_sleep_last: "last (go_to_sleep env adc_open) \<in> {DeepSleep, Abort}"
  by (simp add: go_to_sleep_def)

lemma go_to_sleep_actions:
  "set (go_to_sleep env adc_open) \<subseteq> {TimerWakeup SLEEP_US, AdcDeinit, DeepSleep, Abort}"
  by (auto simp add: go_to_sleep_def)

lemma go_to_sleep_nonempty: "go_to_sleep env adc_open \<noteq> []"
  by (simp add: go_to_sleep_def)

lemma app_main_radio_fault:
  "lora_init_result env = 0 \<Longrightarrow> app_main fl env = LoraInit # go_to_sleep env False"
  by (simp add: app_main_def)

lemma encode_and_send_last:
  "last (encode_and_send env tds v) \<in> {DeepSleep, Abort, BurstUnfinished}"
  using go_to_sleep_last [of env True] go_to_sleep_nonempty [of env True]
  by (auto simp add: encode_and_send_def Let_def split: prod.splits option.splits)

lemma app_main_last: "last (app_main fl env) \<in> {DeepSleep, Abort, BurstUnfinished}"
proof -
  have e: "encode_and_send env tds v \<noteq> []" for tds v
    by (simp add: encode_and_send_def Let_def split: prod.splits)
  show ?thesis
    using go_to_sleep_last [of env False] go_to_sleep_nonempty [of env False]
      encode_and_send_last [of env] e
    by (auto simp add: app_main_def split: sum.splits)
qed

lemma app_main_once:
  assumes "a \<in> {LoraInit, AdcInit, Sample, Encode, DeepSleep}"
  shows "count_list (app_main fl env) a \<le> 1"
proof -
  have g: "count_list (go_to_sleep env False) a \<le> (if a = DeepSleep then 1 else 0)"
    using assms by (auto simp add: go_to_sleep_def)
  have e: "count_list (encode_and_send env tds v) a \<le> (if a = Encode \<or> a = DeepSleep then 1 else 0)" for tds v
  proof -
    have g: "count_list (go_to_sleep env True) a \<le> (if a = DeepSleep then 1 else 0)"
      using assms by (auto simp add: go_to_sleep_def)
    have r: "count_list (replicate n (SendPacket b l)) a = 0" for n b l
      using assms by (induction n) auto
    show ?thesis
      using assms g
      by (auto simp add: encode_and_send_def Let_def r split: prod.splits option.splits)
  qed
  show ?thesis
    using assms g e
    by (auto simp add: app_main_def split: sum.splits)
qed


lemma sample_loop_fault:
  "\<exists>j<k. adc (i + j) = None \<Longrightarrow> sample_loop adc i k acc = Inl Aborted"
proof (induction k arbitrary: i acc)
  case 0
  then show ?case by simp
next
  case (Suc k)
  show ?case
  proof (cases "adc i")
    case None
    then show ?thesis by simp
  next
    case (Some raw)
    from Suc.prems obtain j where j: "j < Suc k" "adc (i + j) = None" by blast
    with Some have "j \<noteq> 0" by (cases j) auto
    then obtain j' where "j = Suc j'" by (cases j) auto
    with j have "\<exists>j<k. adc (Suc i + j) = None" by auto
    from Suc.IH [OF this] Some show ?thesis by simp
  qed
qed

lemma read_tds_ppm_fault:
  "\<exists>i<SAMPLES. adc i = None \<Longrightarrow> read_tds_ppm fl adc = Inl Aborted"
  using sample_loop_fault [of SAMPLES adc 0 0] by (simp add: read_tds_ppm_def)

subsection \<open>The burst loop\<close>

text \<open>
  \<open>S\<close> is the tick time of one round in milliseconds: the gap as the tick clock
  measures it, plus the send.
\<close>

lemma round_ms:
  "(word_of_nat cost + pdMS_TO_TICKS hz TX_BURST_GAP_MS) * portTICK_PERIOD_MS hz
   = (word_of_nat ((1000 div hz) * (TX_BURST_GAP_MS * hz div 1000) + (1000 div hz) * cost) :: 32 word)"
proof -
  have "(word_of_nat cost + pdMS_TO_TICKS hz TX_BURST_GAP_MS) * portTICK_PERIOD_MS hz
        = (word_of_nat ((cost + TX_BURST_GAP_MS * hz div 1000) * (1000 div hz)) :: 32 word)"
    by (simp add: pdMS_TO_TICKS_def portTICK_PERIOD_MS_def)
  also have "(cost + TX_BURST_GAP_MS * hz div 1000) * (1000 div hz)
             = (1000 div hz) * (TX_BURST_GAP_MS * hz div 1000) + (1000 div hz) * cost"
    by (simp add: algebra_simps)
  finally show ?thesis .
qed

lemma elapsed_ms:
  "tick_ms hz (t0 + word_of_nat k * (word_of_nat cost + pdMS_TO_TICKS hz TX_BURST_GAP_MS))
     - tick_ms hz t0
   = (word_of_nat (k * ((1000 div hz) * (TX_BURST_GAP_MS * hz div 1000) + (1000 div hz) * cost)) :: 32 word)"
proof -
  have "tick_ms hz (t0 + word_of_nat k * (word_of_nat cost + pdMS_TO_TICKS hz TX_BURST_GAP_MS))
           - tick_ms hz t0
        = word_of_nat k * ((word_of_nat cost + pdMS_TO_TICKS hz TX_BURST_GAP_MS) * portTICK_PERIOD_MS hz)"
    by (simp add: tick_ms_def algebra_simps)
  also have "\<dots> = word_of_nat k
       * (word_of_nat ((1000 div hz) * (TX_BURST_GAP_MS * hz div 1000) + (1000 div hz) * cost) :: 32 word)"
    by (simp only: round_ms)
  finally show ?thesis by simp
qed

lemma in_window:
  assumes "m < 2 ^ 32"
  shows "(word_of_nat m :: 32 word) < TX_BURST_WINDOW_MS \<longleftrightarrow> m < 5000"
proof -
  have "(word_of_nat m :: 32 word) < word_of_nat 5000 \<longleftrightarrow> m < 5000"
    using assms by (simp add: of_nat_word_less_iff take_bit_nat_eq_self del: of_nat_numeral)
  then show ?thesis by (simp add: TX_BURST_WINDOW_MS_def)
qed

lemma last_round:
  fixes S :: nat
  assumes "0 < S" "S \<le> 2 ^ 31" "n = (4999 + S) div S"
  shows "\<not> (word_of_nat (n * S) :: 32 word) < TX_BURST_WINDOW_MS"
proof -
  have "4999 + S < S + (4999 + S) div S * S"
    using assms(1) by (rule dividend_less_div_times)
  then have lo: "5000 \<le> n * S" using assms(3) by simp
  have "n * S \<le> 4999 + S"
    unfolding assms(3) by (rule div_times_less_eq_dividend)
  with assms(2) have hi: "n * S < 2 ^ 32" by simp
  show ?thesis
    using in_window [OF hi] lo by simp
qed

lemma earlier_round:
  fixes S :: nat
  assumes "0 < S" "n = (4999 + S) div S" "k < n"
  shows "(word_of_nat (k * S) :: 32 word) < TX_BURST_WINDOW_MS"
proof -
  have "n * S \<le> 4999 + S"
    unfolding assms(2) by (rule div_times_less_eq_dividend)
  moreover have "Suc k * S \<le> n * S"
    using assms(3) by (intro mult_le_mono1) simp
  ultimately have lt: "k * S < 5000" by simp
  then have "k * S < 2 ^ 32" by simp
  from in_window [OF this] lt show ?thesis by simp
qed

lemma next_tick:
  fixes t0 c g :: "32 word"
  shows "t0 + word_of_nat k * (c + g) + c + g = t0 + word_of_nat (Suc k) * (c + g)"
  by (simp add: distrib_right add.assoc)

lemma rounds_bounds:
  fixes S :: nat
  assumes "500 \<le> S"
  shows "1 \<le> (4999 + S) div S" and "(4999 + S) div S \<le> 10"
    and "S \<le> 555 \<Longrightarrow> (4999 + S) div S = 10"
    and "S < 625 \<Longrightarrow> 9 \<le> (4999 + S) div S"
    and "5000 \<le> (4999 + S) div S * S"
proof -
  have pos: "0 < S" using assms by simp
  show "1 \<le> (4999 + S) div S"
    using pos by (simp add: less_eq_div_iff_mult_less_eq)
  have "(4999 + S) div S < 11"
    using assms pos by (simp add: div_less_iff_less_mult)
  then show "(4999 + S) div S \<le> 10" by simp
  show "S \<le> 555 \<Longrightarrow> (4999 + S) div S = 10"
    using assms pos by (intro div_nat_eqI) simp_all
  show "S < 625 \<Longrightarrow> 9 \<le> (4999 + S) div S"
    using assms pos by (simp add: less_eq_div_iff_mult_less_eq)
  have "4999 + S < S + (4999 + S) div S * S"
    using pos by (rule dividend_less_div_times)
  then show "5000 \<le> (4999 + S) div S * S" by simp
qed

lemma rounds_positive:
  fixes S :: nat
  assumes "0 < S"
  shows "1 \<le> (4999 + S) div S" and "5000 \<le> (4999 + S) div S * S"
proof -
  show "1 \<le> (4999 + S) div S"
    using assms by (simp add: less_eq_div_iff_mult_less_eq)
  have "4999 + S < S + (4999 + S) div S * S"
    using assms by (rule dividend_less_div_times)
  then show "5000 \<le> (4999 + S) div S * S" by simp
qed

lemma burst_loop_rounds:
  assumes S: "S = (1000 div hz) * (TX_BURST_GAP_MS * hz div 1000) + (1000 div hz) * cost"
      "0 < S" "S \<le> 2 ^ 31"
    and n: "n = (4999 + S) div S"
    and k: "k \<le> n"
  shows "burst_loop hz cost (tick_ms hz t0)
           (t0 + word_of_nat k * (word_of_nat cost + pdMS_TO_TICKS hz TX_BURST_GAP_MS)) k
         = Some (n, t0 + word_of_nat n * (word_of_nat cost + pdMS_TO_TICKS hz TX_BURST_GAP_MS))"
proof -
  define g where "g = word_of_nat cost + pdMS_TO_TICKS hz TX_BURST_GAP_MS"
  have el: "tick_ms hz (t0 + word_of_nat j * g) - tick_ms hz t0 = word_of_nat (j * S)" for j
    unfolding g_def S(1) by (rule elapsed_ms)
  note pos = S(2)
  have "burst_loop hz cost (tick_ms hz t0) (t0 + word_of_nat k * g) k
        = Some (n, t0 + word_of_nat n * g)"
    using k
  proof (induction "n - k" arbitrary: k)
    case 0
    then have kn: "k = n" by simp
    show ?case
      unfolding kn
      by (subst burst_loop.simps) (simp only: el last_round [OF pos S(3) n] if_False)
  next
    case (Suc d)
    then have kn: "k < n" by simp
    have w: "(word_of_nat (k * S) :: 32 word) < TX_BURST_WINDOW_MS"
      using pos n kn by (rule earlier_round)
    have nx: "t0 + word_of_nat k * g + word_of_nat cost + pdMS_TO_TICKS hz TX_BURST_GAP_MS
              = t0 + word_of_nat (Suc k) * g"
      unfolding g_def by (rule next_tick)
    have "d = n - Suc k" "Suc k \<le> n"
      using Suc.hyps(2) kn by simp_all
    then have ih: "burst_loop hz cost (tick_ms hz t0) (t0 + word_of_nat (Suc k) * g) (Suc k)
        = Some (n, t0 + word_of_nat n * g)"
      by (rule Suc.hyps(1))
    show ?case
      by (subst burst_loop.simps) (simp only: el w if_True nx ih)
  qed
  then show ?thesis unfolding g_def .
qed

lemma lora_send_burst_rounds:
  assumes S: "S = (1000 div hz) * (TX_BURST_GAP_MS * hz div 1000) + (1000 div hz) * cost"
      "0 < S" "S \<le> 2 ^ 31"
  shows "lora_send_burst hz cost t0 =
         Some ((4999 + S) div S,
               t0 + word_of_nat ((4999 + S) div S) * (word_of_nat cost + pdMS_TO_TICKS hz TX_BURST_GAP_MS))"
  using burst_loop_rounds [OF S refl, of 0 t0] by (simp add: lora_send_burst_def)

subsection \<open>Decimal digits\<close>

lemma digit_char_digit:
  assumes "d < 10"
  shows "isdigit (digit_char d)" and "digit_value (digit_char d) = d"
  using assms by (simp_all add: digit_char_def isdigit_def digit_value_def)

lemma decimal_digits: "\<forall>c\<in>set (decimal n). isdigit c"
proof (induction n rule: decimal.induct)
  case (1 n)
  show ?case
  proof (cases "n < 10")
    case True
    then show ?thesis by (subst decimal.simps) (simp add: digit_char_digit)
  next
    case False
    with 1 have "\<forall>c\<in>set (decimal (n div 10)). isdigit c" by simp
    with False show ?thesis by (subst decimal.simps) (simp add: digit_char_digit)
  qed
qed

lemma decimal_nonempty: "decimal n \<noteq> []"
  by (subst decimal.simps) simp

lemma digits_value_snoc: "digits_value b (ds @ [c]) = digits_value b ds * b + digit_value c"
  by (simp add: digits_value_def)

lemma digits_value_decimal: "digits_value 10 (decimal n) = n"
proof (induction n rule: decimal.induct)
  case (1 n)
  show ?case
  proof (cases "n < 10")
    case True
    then show ?thesis
      by (subst decimal.simps) (simp add: digits_value_def digit_char_digit)
  next
    case False
    with 1 have "digits_value 10 (decimal (n div 10)) = n div 10" by simp
    with False show ?thesis
      by (subst decimal.simps) (simp add: digits_value_snoc digit_char_digit)
  qed
qed

lemma length_decimal: "n < 10 ^ k \<Longrightarrow> 0 < k \<Longrightarrow> length (decimal n) \<le> k"
proof (induction n arbitrary: k rule: decimal.induct)
  case (1 n)
  show ?case
  proof (cases "n < 10")
    case True
    with 1(3) show ?thesis by (subst decimal.simps) simp
  next
    case False
    from 1(3) obtain j where k: "k = Suc j" by (cases k) auto
    from False 1(2) k have j: "0 < j" by (cases j) auto
    from 1(2) k have "n div 10 < 10 ^ j"
      by (simp add: div_less_iff_less_mult mult.commute)
    from 1(1) [OF False this j] k False show ?thesis
      by (subst decimal.simps) simp
  qed
qed

subsection \<open>Rounding to the nearest integer\<close>

lemma round_half_even_cases:
  "round_half_even x = \<lfloor>x\<rfloor> \<and> x - of_int \<lfloor>x\<rfloor> \<le> 1 / 2
   \<or> round_half_even x = \<lfloor>x\<rfloor> + 1 \<and> 1 / 2 \<le> x - of_int \<lfloor>x\<rfloor>"
  by (auto simp add: round_half_even_def Let_def)

lemma round_half_even_near: "\<bar>of_int (round_half_even x) - x\<bar> \<le> 1 / 2"
proof -
  have "of_int \<lfloor>x\<rfloor> \<le> x" "x < of_int \<lfloor>x\<rfloor> + 1"
    by linarith+
  with round_half_even_cases [of x] show ?thesis
    by (auto simp add: abs_le_iff)
qed

lemma round_half_even_nonneg: "0 \<le> x \<Longrightarrow> 0 \<le> round_half_even x"
  using round_half_even_cases [of x] by (auto simp add: zero_le_floor)

lemma round_half_even_le: "x \<le> of_int m \<Longrightarrow> round_half_even x \<le> m"
proof -
  assume a: "x \<le> of_int m"
  then have f: "\<lfloor>x\<rfloor> \<le> m" by (simp add: floor_le_iff) 
  consider "round_half_even x = \<lfloor>x\<rfloor>" | "round_half_even x = \<lfloor>x\<rfloor> + 1" "1 / 2 \<le> x - of_int \<lfloor>x\<rfloor>"
    using round_half_even_cases [of x] by blast
  then show ?thesis
  proof cases
    case 1
    with f show ?thesis by simp
  next
    case 2
    have "\<lfloor>x\<rfloor> \<noteq> m"
    proof
      assume "\<lfloor>x\<rfloor> = m"
      with 2(2) a show False by simp
    qed
    with f 2(1) show ?thesis by simp
  qed
qed

text \<open>Rules that evaluate the formatting of a numeral one digit at a time.\<close>

lemma digit_char_eval:
  "digit_char 0 = CHR ''0''" "digit_char (Suc 0) = CHR ''1''" "digit_char 1 = CHR ''1''"
  "digit_char 2 = CHR ''2''" "digit_char 3 = CHR ''3''" "digit_char 4 = CHR ''4''"
  "digit_char 5 = CHR ''5''" "digit_char 6 = CHR ''6''" "digit_char 7 = CHR ''7''"
  "digit_char 8 = CHR ''8''" "digit_char 9 = CHR ''9''"
  by code_simp+

lemma decimal_eval:
  "n < 10 \<Longrightarrow> decimal n = [digit_char n]"
  "10 \<le> n \<Longrightarrow> decimal n = decimal (n div 10) @ [digit_char (n mod 10)]"
  by (simp_all add: decimal.simps)

lemma floor_rat_eval: "\<lfloor>numeral a / numeral b :: rat\<rfloor> = numeral a div numeral b"
  using floor_divide_of_int_eq [of "numeral a" "numeral b", where ?'a = rat] by simp

lemmas format_eval = payload_text_def format_f0_def format_f2_def sign_text_def
  round_half_even_def Let_def floor_rat_eval decimal_eval digit_char_eval

subsection \<open>The payload text read back\<close>

lemma format_f0_nonneg: "0 \<le> x \<Longrightarrow> format_f0 x = decimal (nat (round_half_even x))"
  by (simp add: format_f0_def sign_text_def)

lemma format_f2_nonneg:
  "0 \<le> x \<Longrightarrow> format_f2 x =
     decimal (nat (round_half_even (x * 100)) div 100) @
     CHR ''.'' # [digit_char (nat (round_half_even (x * 100)) div 10 mod 10),
                  digit_char (nat (round_half_even (x * 100)) mod 10)]"
  by (simp add: format_f2_def sign_text_def Let_def)

lemma two_digits_value:
  "digits_value 10 (decimal (r div 100) @ [digit_char (r div 10 mod 10), digit_char (r mod 10)]) = r"
proof -
  have "digits_value 10 ((decimal (r div 100) @ [digit_char (r div 10 mod 10)]) @ [digit_char (r mod 10)])
        = (r div 100 * 10 + r div 10 mod 10) * 10 + r mod 10"
    by (simp only: digits_value_snoc digits_value_decimal) (simp add: digit_char_digit)
  moreover have "r div 100 * 10 + r div 10 mod 10 = r div 10"
  proof -
    have "r div 100 = r div 10 div 10" by (simp add: div_mult2_eq)
    then show ?thesis by simp
  qed
  ultimately show ?thesis by simp
qed

lemma strtof_format_f2:
  assumes "0 \<le> v"
  shows "strtof cv (format_f2 v) = (cv (Num False (of_int (round_half_even (v * 100)) / 100)), [])"
proof -
  define r where "r = nat (round_half_even (v * 100))"
  have rv: "rat_of_nat r = of_int (round_half_even (v * 100))"
    using round_half_even_nonneg [of "v * 100"] assms by (simp add: r_def)
  have fp: "\<forall>c\<in>set [digit_char (r div 10 mod 10), digit_char (r mod 10)]. isdigit c"
    by (simp add: digit_char_digit)
  have "strtof cv (decimal (r div 100) @ CHR ''.'' # [digit_char (r div 10 mod 10), digit_char (r mod 10)])
        = (cv (Num False (scale (of_nat r) 10 (- 2))), [])"
    using strtof_fraction_field [OF decimal_nonempty decimal_digits fp, of cv "r div 100"]
    by (simp add: two_digits_value)
  then show ?thesis
    using assms by (simp add: format_f2_nonneg r_def [symmetric] scale_def rv)
qed

lemma decode_payload_text:
  assumes "0 \<le> tds" and "0 \<le> v"
  shows "decode cv (payload_text tds v) =
         Some (cv (Num False (of_int (round_half_even tds))),
               cv (Num False (of_int (round_half_even (v * 100)) / 100)))"
proof -
  have "rat_of_nat (nat (round_half_even tds)) = of_int (round_half_even tds)"
    using round_half_even_nonneg [OF assms(1)] by simp
  then show ?thesis
    using decode_integer_field [OF decimal_nonempty decimal_digits, of cv "nat (round_half_even tds)" "format_f2 v"]
    by (simp add: payload_text_def format_f0_nonneg [OF assms(1)] digits_value_decimal
        strtof_format_f2 [OF assms(2)])
qed

lemma digit_not_nul: "isdigit c \<Longrightarrow> c \<noteq> CHR 0x00"
  by (auto simp add: isdigit_def)

lemma cstring_payload_text:
  assumes "0 \<le> tds" and "0 \<le> v"
  shows "cstring (payload_text tds v) = payload_text tds v"
proof -
  have "\<forall>c\<in>set (payload_text tds v). c \<noteq> CHR 0x00"
    using decimal_digits digit_not_nul
    by (auto simp add: payload_text_def format_f0_nonneg [OF assms(1)] format_f2_nonneg [OF assms(2)]
        digit_char_digit dest!: bspec)
  then show ?thesis
    by (simp add: cstring_def takeWhile_eq_all_conv)
qed

lemma payload_text_length:
  assumes tds: "0 \<le> tds" "tds \<le> of_int m" "m < 10 ^ a" "0 < a"
    and v: "0 \<le> v" "v \<le> of_int w" "w < 10 ^ b" "0 < b"
  shows "length (payload_text tds v) \<le> a + b + 7"
proof -
  have "round_half_even tds \<le> m"
    using tds(2) by (rule round_half_even_le)
  with tds(3) have "nat (round_half_even tds) < 10 ^ a"
    using round_half_even_nonneg [OF tds(1)] by (simp add: nat_less_iff)
  then have l0: "length (format_f0 tds) \<le> a"
    using tds(4) by (simp add: format_f0_nonneg [OF tds(1)] length_decimal)
  have "v * 100 \<le> of_int (w * 100)"
    using v(2) by simp
  then have "round_half_even (v * 100) \<le> w * 100"
    by (rule round_half_even_le)
  then have "nat (round_half_even (v * 100)) \<le> nat w * 100"
    by (simp add: nat_le_iff)
  then have "nat (round_half_even (v * 100)) div 100 \<le> nat w * 100 div 100"
    by (rule div_le_mono)
  then have "nat (round_half_even (v * 100)) div 100 \<le> nat w"
    by simp
  with v(3) have "nat (round_half_even (v * 100)) div 100 < 10 ^ b"
    by (simp add: nat_less_iff le_less_trans)
  then have "length (decimal (nat (round_half_even (v * 100)) div 100)) \<le> b"
    using v(4) by (rule length_decimal)
  then have l2: "length (format_f2 v) \<le> b + 3"
    by (simp add: format_f2_nonneg [OF v(1)])
  from l0 l2 show ?thesis by (simp add: payload_text_def)
qed

subsection \<open>What the sampling can produce\<close>

lemma rounding_mono: "rounding fl \<Longrightarrow> x \<le> y \<Longrightarrow> fl x \<le> fl y"
  by (simp add: rounding_def monoD)

lemma rounding_zero: "rounding fl \<Longrightarrow> fl 0 = 0"
  by (simp add: rounding_def)

lemma rounding_pow2: "rounding fl \<Longrightarrow> k \<le> 64 \<Longrightarrow> fl (2 ^ k) = 2 ^ k"
  by (simp add: rounding_def)

lemma rounding_one: "rounding fl \<Longrightarrow> fl 1 = 1"
  using rounding_pow2 [of fl 0] by simp

lemma rounding_upper:
  assumes "rounding fl" and "k \<le> 64" and "x \<le> 2 ^ k"
  shows "fl x \<le> 2 ^ k"
  using rounding_mono [OF assms(1,3)] rounding_pow2 [OF assms(1,2)] by simp

lemma rounding_lower:
  assumes "rounding fl" and "k \<le> 64" and "2 ^ k \<le> x"
  shows "2 ^ k \<le> fl x"
  using rounding_mono [OF assms(1,3)] rounding_pow2 [OF assms(1,2)] by simp

lemma rounding_nonneg:
  assumes "rounding fl" and "0 \<le> x"
  shows "0 \<le> fl x"
  using rounding_mono [OF assms] rounding_zero [OF assms(1)] by simp

lemma sample_loop_range:
  "\<forall>j<k. \<exists>raw. adc (i + j) = Some raw \<and> 0 \<le> raw \<and> raw \<le> 4095 \<Longrightarrow>
   \<exists>s. sample_loop adc i k acc = Inr s \<and> acc \<le> s \<and> s \<le> acc + 4095 * int k"
proof (induction k arbitrary: i acc)
  case 0
  show ?case by simp
next
  case (Suc k)
  from Suc.prems have "\<exists>raw. adc (i + 0) = Some raw \<and> 0 \<le> raw \<and> raw \<le> 4095" by blast
  then obtain raw where raw: "adc i = Some raw" "0 \<le> raw" "raw \<le> 4095" by auto
  have "\<forall>j<k. \<exists>raw. adc (Suc i + j) = Some raw \<and> 0 \<le> raw \<and> raw \<le> 4095"
    using Suc.prems by (metis Suc_less_eq add_Suc_shift)
  from Suc.IH [OF this, of "acc + raw"] obtain s where
    "sample_loop adc (Suc i) k (acc + raw) = Inr s" "acc + raw \<le> s" "s \<le> acc + raw + 4095 * int k"
    by blast
  with raw show ?case by (simp add: algebra_simps)
qed

lemma voltage_of_sum_range:
  assumes fl: "rounding fl" and s: "0 \<le> s" "s \<le> 131040"
  shows "0 \<le> voltage_of_sum fl s" and "voltage_of_sum fl s \<le> 2 ^ 12"
proof -
  have a0: "0 \<le> fl (of_int s)" using s(1) by (intro rounding_nonneg [OF fl]) simp_all
  have a1: "fl (of_int s) \<le> 2 ^ 17" using s(2) by (intro rounding_upper [OF fl]) simp_all
  have b: "fl (of_nat SAMPLES) = 2 ^ 5"
    using rounding_pow2 [OF fl, of 5] by (simp add: SAMPLES_def)
  have r0: "0 \<le> fdiv fl (fl (of_int s)) (fl (of_nat SAMPLES))"
    unfolding fdiv_def b using a0 by (intro rounding_nonneg [OF fl]) simp_all
  have r1: "fdiv fl (fl (of_int s)) (fl (of_nat SAMPLES)) \<le> 2 ^ 12"
    unfolding fdiv_def b using a1 by (intro rounding_upper [OF fl]) simp_all
  have v0: "0 \<le> VREF fl" unfolding VREF_def by (intro rounding_nonneg [OF fl]) simp_all
  have v1: "VREF fl \<le> 2 ^ 2" unfolding VREF_def by (intro rounding_upper [OF fl]) simp_all
  have d: "2 ^ 11 \<le> fl 4095" by (intro rounding_lower [OF fl]) simp_all
  have q: "VREF fl / fl 4095 \<le> 4 / 2 ^ 11"
    using v0 v1 d by (intro frac_le) simp_all
  have "(4 :: rat) / 2 ^ 11 \<le> 2 ^ 0" by simp
  with q have "VREF fl / fl 4095 \<le> 2 ^ 0" by (rule order_trans)
  then have "fl (VREF fl / fl 4095) \<le> 2 ^ 0"
    by (intro rounding_upper [OF fl]) simp_all
  then have k1: "fdiv fl (VREF fl) (fl 4095) \<le> 1"
    by (simp add: fdiv_def)
  have "0 \<le> VREF fl / fl 4095"
    using v0 d by (intro divide_nonneg_nonneg) simp_all
  then have k0: "0 \<le> fdiv fl (VREF fl) (fl 4095)"
    unfolding fdiv_def by (intro rounding_nonneg [OF fl])
  have p0: "0 \<le> fdiv fl (fl (of_int s)) (fl (of_nat SAMPLES)) * fdiv fl (VREF fl) (fl 4095)"
    using r0 k0 by simp
  have "fdiv fl (fl (of_int s)) (fl (of_nat SAMPLES)) * fdiv fl (VREF fl) (fl 4095) \<le> 2 ^ 12 * 1"
    using r0 r1 k0 k1 by (intro mult_mono) simp_all
  then have p1: "fdiv fl (fl (of_int s)) (fl (of_nat SAMPLES)) * fdiv fl (VREF fl) (fl 4095) \<le> 2 ^ 12"
    by simp
  show "0 \<le> voltage_of_sum fl s"
    unfolding voltage_of_sum_def Let_def fmul_def using p0 by (rule rounding_nonneg [OF fl])
  show "voltage_of_sum fl s \<le> 2 ^ 12"
    unfolding voltage_of_sum_def Let_def fmul_def using p1 by (intro rounding_upper [OF fl]) simp_all
qed

lemma comp_voltage_of_rounding: "rounding fl \<Longrightarrow> comp_voltage_of fl v = fl v"
  by (simp add: comp_voltage_of_def fadd_def fmul_def fsub_def fdiv_def TEMPERATURE_C_def
      rounding_zero rounding_one)

lemma fmul_range:
  assumes fl: "rounding fl" and a: "0 \<le> a" "a \<le> 2 ^ i" and b: "0 \<le> b" "b \<le> 2 ^ j" and k: "i + j \<le> 64"
  shows "0 \<le> fmul fl a b" and "fmul fl a b \<le> 2 ^ (i + j)"
proof -
  have "a * b \<le> 2 ^ i * 2 ^ j"
    using a b by (intro mult_mono) simp_all
  then have "a * b \<le> 2 ^ (i + j)" by (simp add: power_add)
  then show "fmul fl a b \<le> 2 ^ (i + j)"
    unfolding fmul_def using k by (intro rounding_upper [OF fl])
  show "0 \<le> fmul fl a b"
    unfolding fmul_def using a(1) b(1) by (intro rounding_nonneg [OF fl]) simp_all
qed

lemma tds_polynomial_upper:
  assumes fl: "rounding fl" and cv: "0 \<le> cv" "cv \<le> 2 ^ 12"
  shows "tds_polynomial fl cv \<le> 2 ^ 45"
proof -
  have c1: "0 \<le> fl (13342 / 100)" "fl (13342 / 100) \<le> 2 ^ 8"
    by (intro rounding_nonneg [OF fl] rounding_upper [OF fl]; simp)+
  have c2: "0 \<le> fl (25586 / 100)" "fl (25586 / 100) \<le> 2 ^ 8"
    by (intro rounding_nonneg [OF fl] rounding_upper [OF fl]; simp)+
  have c3: "0 \<le> fl (85739 / 100)" "fl (85739 / 100) \<le> 2 ^ 10"
    by (intro rounding_nonneg [OF fl] rounding_upper [OF fl]; simp)+
  have h: "0 \<le> fl (1 / 2)" "fl (1 / 2) \<le> 1"
    using rounding_upper [OF fl, of 0 "1 / 2"] rounding_nonneg [OF fl, of "1 / 2"] by simp_all
  have m1: "0 \<le> fmul fl (fl (13342 / 100)) cv" "fmul fl (fl (13342 / 100)) cv \<le> 2 ^ (8 + 12)"
    by (rule fmul_range [OF fl c1 cv]; simp)+
  have m2: "0 \<le> fmul fl (fmul fl (fl (13342 / 100)) cv) cv"
    "fmul fl (fmul fl (fl (13342 / 100)) cv) cv \<le> 2 ^ (8 + 12 + 12)"
    by (rule fmul_range [OF fl m1 cv]; simp)+
  have m3: "fmul fl (fmul fl (fmul fl (fl (13342 / 100)) cv) cv) cv \<le> 2 ^ (8 + 12 + 12 + 12)"
    by (rule fmul_range [OF fl m2 cv]) simp
  have n1: "0 \<le> fmul fl (fl (25586 / 100)) cv" "fmul fl (fl (25586 / 100)) cv \<le> 2 ^ (8 + 12)"
    by (rule fmul_range [OF fl c2 cv]; simp)+
  have n2: "0 \<le> fmul fl (fmul fl (fl (25586 / 100)) cv) cv"
    by (rule fmul_range [OF fl n1 cv]) simp
  have l: "fmul fl (fl (85739 / 100)) cv \<le> 2 ^ (10 + 12)"
    by (rule fmul_range [OF fl c3 cv]) simp
  define A where "A = fmul fl (fmul fl (fmul fl (fl (13342 / 100)) cv) cv) cv"
  define B where "B = fmul fl (fmul fl (fl (25586 / 100)) cv) cv"
  define C where "C = fmul fl (fl (85739 / 100)) cv"
  have A: "A \<le> 2 ^ 44" using m3 by (simp add: A_def)
  have B: "0 \<le> B" using n2 by (simp add: B_def)
  have C: "C \<le> 2 ^ 22" using l by (simp add: C_def)
  have "A - B \<le> 2 ^ 44" using A B by simp
  then have d: "fsub fl A B \<le> 2 ^ 44"
    unfolding fsub_def by (intro rounding_upper [OF fl]) simp_all
  have "fsub fl A B + C \<le> 2 ^ 45" using d C by simp
  then have e: "fadd fl (fsub fl A B) C \<le> 2 ^ 45"
    unfolding fadd_def by (intro rounding_upper [OF fl]) simp_all
  define E where "E = fadd fl (fsub fl A B) C"
  have "E * fl (1 / 2) \<le> 2 ^ 45"
  proof (cases "0 \<le> E")
    case True
    then have "E * fl (1 / 2) \<le> E * 1"
      using h by (intro mult_left_mono) simp_all
    with e show ?thesis by (simp add: E_def)
  next
    case False
    then have "E * fl (1 / 2) \<le> 0"
      using h(1) by (simp add: mult_le_0_iff)
    then show ?thesis by simp
  qed
  then have "fmul fl E (fl (1 / 2)) \<le> 2 ^ 45"
    unfolding fmul_def by (intro rounding_upper [OF fl]) simp_all
  then show ?thesis
    by (simp add: tds_polynomial_def E_def A_def B_def C_def)
qed

lemma read_tds_ppm_range:
  assumes fl: "rounding fl" and adc: "in_range adc"
  shows "\<exists>tds v. read_tds_ppm fl adc = Inr (tds, v) \<and> 0 \<le> tds \<and> tds \<le> 2 ^ 45 \<and> 0 \<le> v \<and> v \<le> 2 ^ 12"
proof -
  from adc have "\<forall>j<SAMPLES. \<exists>raw. adc (0 + j) = Some raw \<and> 0 \<le> raw \<and> raw \<le> 4095"
    by (simp add: in_range_def)
  from sample_loop_range [OF this, of 0] obtain s where
    s: "sample_loop adc 0 SAMPLES 0 = Inr s" "0 \<le> s" "s \<le> 131040"
    by (auto simp add: SAMPLES_def)
  note v = voltage_of_sum_range [OF fl s(2,3)]
  have cv: "0 \<le> fl (voltage_of_sum fl s)" "fl (voltage_of_sum fl s) \<le> 2 ^ 12"
    using v by (intro rounding_nonneg [OF fl] rounding_upper [OF fl]; simp)+
  from tds_polynomial_upper [OF fl cv] s(1) v show ?thesis
    by (simp add: read_tds_ppm_def Let_def comp_voltage_of_rounding [OF fl])
qed

subsection \<open>The packets of a boot\<close>

lemma app_main_packets:
  assumes "SendPacket b l \<in> set (app_main fl env)"
  shows "\<exists>tds v. read_tds_ppm fl (adc_read env) = Inr (tds, v)
           \<and> SendPacket b l \<in> set (encode_and_send env tds v)"
  using assms by (auto simp add: app_main_def go_to_sleep_def split: if_splits sum.splits)

lemma encode_and_send_error:
  assumes "snprintf_error env"
  shows "SendPacket b l \<notin> set (encode_and_send env x y)"
  using assms by (auto simp add: encode_and_send_def snprintf_payload_def go_to_sleep_def)

lemma encode_and_send_packets:
  assumes "length (payload_text x y) < 64" and "SendPacket b l \<in> set (encode_and_send env x y)"
  shows "b = payload_text x y \<and> l = int (length (payload_text x y))"
  using assms
  by (auto simp add: encode_and_send_def snprintf_payload_def go_to_sleep_def
      split: if_splits option.splits)


section \<open>Claims about the receiver\<close>




text \<open>
  \<^bold>\<open>C4\<close> (link-up signal). The handler sets \<open>WIFI_CONNECTED_BIT\<close> and never clears it.
  After start, address-acquired and one drop, the specification's state machine is back
  in \<open>Connecting\<close> while the bit \<open>task_rx\<close> reads is still set.
\<close>

theorem link_up_after_drop:
  "link_up (wifi_run wifi_boot [WIFI_EVENT_STA_START, IP_EVENT_STA_GOT_IP, WIFI_EVENT_STA_DISCONNECTED])
   \<and> fst (spec_connectivity_run [WIFI_EVENT_STA_START, IP_EVENT_STA_GOT_IP, WIFI_EVENT_STA_DISCONNECTED]) = Connecting"
  by (simp add: wifi_run_def wifi_boot_def link_up_def esp_wifi_connect_def xEventGroupSetBits_def
      WIFI_CONNECTED_BIT_def spec_connectivity_run_def MAX_RETRIES_def)

text \<open>
  \<^bold>\<open>C10\<close> (failure writes nothing). When \<open>parse_payload\<close> returns false, the memory is
  as it was: neither output location has been written, whatever the pointers are.
\<close>

theorem parse_payload_failure_writes_nothing:
  "\<not> fst (parse_payload cv s out_tds out_v mem) \<Longrightarrow>
   snd (parse_payload cv s out_tds out_v mem) = mem"
  by (auto simp add: parse_payload_def split: prod.splits list.splits if_splits)

theorem parse_payload_failure_writes_nothing_witness:
  "\<not> fst (parse_payload (\<lambda>n. n) ''TD,1 2'' (Some 0) (Some 1) (\<lambda>a. Num False 7))
   \<and> snd (parse_payload (\<lambda>n. n) ''TD,1 2'' (Some 0) (Some 1) (\<lambda>a. Num False 7)) = (\<lambda>a. Num False 7)"
proof -
  have h: "\<not> fst (parse_payload (\<lambda>n. n) ''TD,1 2'' (Some 0) (Some 1) (\<lambda>a. Num False 7))"
    by (simp add: parse_payload_def strtof_def scan_sign_def scan_special_def scan_hex_def
        scan_decimal_def scan_fraction_def scan_exponent_def isspace_def isdigit_def tolower_def
        digits_value_def digit_value_def scale_def)
  from h parse_payload_failure_writes_nothing [OF h] show ?thesis by simp
qed

text \<open>
  \<^bold>\<open>C1\<close> (decode rejection). \<open>decode\<close> fails exactly when the string does
  not start with \<open>TD,\<close> or what \<open>strtof\<close> leaves after the first field does not start
  with a comma. The second field is never checked: after a first field of digits and a
  comma, \<open>decode\<close> succeeds whatever follows, and reads as voltage whatever \<open>strtof\<close>
  makes of the rest (zero when it is no number). An empty first field followed by a comma
  is accepted as zero. \<open>XX,1,2\<close>, \<open>TD,1 2\<close> and \<open>TD,abc,2\<close> are rejected and
  \<open>TD,120,1.43\<close> gives 120 and 1.43.
\<close>

theorem decode_rejection:
  "(decode cv s = None \<longleftrightarrow>
      take 3 s \<noteq> ''TD,'' \<or> (\<forall>r. snd (strtof cv (drop 3 s)) \<noteq> CHR '','' # r))
   \<and> (ds \<noteq> [] \<and> (\<forall>c\<in>set ds. isdigit c) \<longrightarrow>
        decode cv (''TD,'' @ ds @ CHR '','' # t) =
        Some (cv (Num False (of_nat (digits_value 10 ds))), fst (strtof cv t)))
   \<and> decode cv (''TD,,'' @ t) = Some (cv (Num False 0), fst (strtof cv t))
   \<and> decode cv ''XX,1,2'' = None
   \<and> decode cv ''TD,1 2'' = None
   \<and> decode cv ''TD,abc,2'' = None
   \<and> decode cv ''TD,120,1.43'' = Some (cv (Num False 120), cv (Num False (143 / 100)))"
proof -
  note scan = strtof_def scan_sign_def scan_special_def scan_hex_def scan_decimal_def
    scan_fraction_def scan_exponent_def isspace_def isdigit_def tolower_def digits_value_def
    digit_value_def scale_def
  have empty_first: "decode cv (''TD,,'' @ t) = Some (cv (Num False 0), fst (strtof cv t))"
    using decode_prefix [of cv "CHR '','' # t"] by (simp add: strtof_no_number)
  have x1: "decode cv ''XX,1,2'' = None"
    by (simp add: decode_def parse_payload_def)
  have x2: "decode cv ''TD,1 2'' = None"
    using decode_prefix [of cv "''1 2''"] by (simp add: scan)
  have x3: "decode cv ''TD,abc,2'' = None"
    using decode_prefix [of cv "''abc,2''"] by (simp add: scan)
  have x4: "decode cv ''TD,120,1.43'' = Some (cv (Num False 120), cv (Num False (143 / 100)))"
    using decode_prefix [of cv "''120,1.43''"] by (simp add: scan)
  from decode_fails_iff [of cv s] decode_integer_field [of ds cv t] empty_first x1 x2 x3 x4
  show ?thesis by blast
qed

text \<open>A second field that is no number, and a first field that is empty, are both accepted.\<close>

theorem decode_accepts_unparsable_field:
  "decode (\<lambda>n. n) ''TD,1,abc'' = Some (Num False 1, Num False 0)
   \<and> decode (\<lambda>n. n) ''TD,,2'' = Some (Num False 0, Num False 2)"
  by (simp add: decode_def parse_payload_def store_float_def strtof_def scan_sign_def
      scan_special_def scan_hex_def scan_decimal_def scan_fraction_def scan_exponent_def
      isspace_def isdigit_def tolower_def digits_value_def digit_value_def scale_def)

theorem decode_rejection_witness:
  "decode (\<lambda>n. n) ''TD,75,abc'' = Some (Num False 75, Num False 0)"
proof -
  have h: "''75'' \<noteq> [] \<and> (\<forall>c\<in>set ''75''. isdigit c)"
    by (simp add: isdigit_def)
  from h decode_rejection [of "\<lambda>n. n" "''TD,75,abc''" "''75''" "''abc''"]
  have "decode (\<lambda>n. n) (''TD,'' @ ''75'' @ CHR '','' # ''abc'') =
        Some (Num False (of_nat (digits_value 10 ''75'')), fst (strtof (\<lambda>n. n) ''abc''))"
    by blast
  then show ?thesis
    by (simp add: strtof_def scan_sign_def scan_special_def scan_hex_def scan_decimal_def
        scan_fraction_def isspace_def isdigit_def tolower_def digits_value_def digit_value_def)
qed




section \<open>Claims about the transmitter\<close>

text \<open>
  \<^bold>\<open>C6\<close> (burst timing). Let \<open>g\<close> be the 500 ms gap as the tick clock measures it,
  the ticks of the gap times the milliseconds of a tick (500 at 100 Hz and at 1000 Hz,
  300 at 600 Hz), and \<open>s\<close> the milliseconds of tick time one call of
  \<open>lora_send_packet\<close> takes. If a round takes tick time, \<open>0 < g + s\<close> (and at most
  \<open>2\<^sup>3\<^sup>0\<close> ms), then \<open>lora_send_burst\<close> returns, after \<open>\<lceil>5000 / (g + s)\<rceil>\<close> send
  attempts, at least one; when it returns, its own clock shows at least the 5000 ms of
  the window elapsed. Where the clock measures the gap as 500 ms, the attempts are
  never more than 10, exactly 10 when \<open>s \<le> 55\<close> (in particular when the send does not
  block), 9 or 10 when \<open>s < 125\<close>.
\<close>

theorem burst_timing:
  "g = (1000 div hz) * (TX_BURST_GAP_MS * hz div 1000) \<and> s = (1000 div hz) * cost
   \<and> 0 < g + s \<and> g + s \<le> 2 ^ 30 \<longrightarrow>
     lora_send_burst hz cost t0 =
       Some ((4999 + (g + s)) div (g + s),
             t0 + word_of_nat ((4999 + (g + s)) div (g + s)) * (word_of_nat cost + pdMS_TO_TICKS hz TX_BURST_GAP_MS))
     \<and> tick_ms hz (t0 + word_of_nat ((4999 + (g + s)) div (g + s)) * (word_of_nat cost + pdMS_TO_TICKS hz TX_BURST_GAP_MS))
         - tick_ms hz t0 = word_of_nat ((4999 + (g + s)) div (g + s) * (g + s))
     \<and> 5000 \<le> (4999 + (g + s)) div (g + s) * (g + s)
     \<and> (4999 + (g + s)) div (g + s) * (g + s) < 2 ^ 32
     \<and> 1 \<le> (4999 + (g + s)) div (g + s)
     \<and> (g = 500 \<longrightarrow>
          (4999 + (g + s)) div (g + s) \<le> 10
          \<and> (s \<le> 55 \<longrightarrow> (4999 + (g + s)) div (g + s) = 10)
          \<and> (s < 125 \<longrightarrow> 9 \<le> (4999 + (g + s)) div (g + s)))"
proof (intro impI)
  assume a: "g = (1000 div hz) * (TX_BURST_GAP_MS * hz div 1000) \<and> s = (1000 div hz) * cost
   \<and> 0 < g + s \<and> g + s \<le> 2 ^ 30"
  define S where "S = g + s"
  have S1: "S = (1000 div hz) * (TX_BURST_GAP_MS * hz div 1000) + (1000 div hz) * cost"
    using a by (simp add: S_def)
  have S0: "0 < S" unfolding S_def using a by (elim conjE)
  have S2: "S \<le> 2 ^ 31" using a by (simp add: S_def)
  have up: "(4999 + S) div S * S \<le> 4999 + S" by (rule div_times_less_eq_dividend)
  have "4999 + S < 2 ^ 32" using S2 by simp
  with up have hi: "(4999 + S) div S * S < 2 ^ 32" by (rule order_le_less_trans)
  note p = rounds_positive [OF S0]
  have b: "g = 500 \<longrightarrow>
          (4999 + S) div S \<le> 10
          \<and> (s \<le> 55 \<longrightarrow> (4999 + S) div S = 10)
          \<and> (s < 125 \<longrightarrow> 9 \<le> (4999 + S) div S)"
  proof (intro impI)
    assume "g = 500"
    then have S3: "500 \<le> S" and Ss: "S = 500 + s" by (simp_all add: S_def)
    note r = rounds_bounds [OF S3]
    have "s \<le> 55 \<longrightarrow> (4999 + S) div S = 10" using r(3) by (simp add: Ss)
    moreover have "s < 125 \<longrightarrow> 9 \<le> (4999 + S) div S" using r(4) by (simp add: Ss)
    ultimately show "(4999 + S) div S \<le> 10
          \<and> (s \<le> 55 \<longrightarrow> (4999 + S) div S = 10)
          \<and> (s < 125 \<longrightarrow> 9 \<le> (4999 + S) div S)"
      using r(2) by (intro conjI)
  qed
  have el: "tick_ms hz (t0 + word_of_nat ((4999 + S) div S) * (word_of_nat cost + pdMS_TO_TICKS hz TX_BURST_GAP_MS))
         - tick_ms hz t0 = word_of_nat ((4999 + S) div S * S)"
    unfolding S1 by (rule elapsed_ms)
  show "lora_send_burst hz cost t0 =
       Some ((4999 + (g + s)) div (g + s),
             t0 + word_of_nat ((4999 + (g + s)) div (g + s)) * (word_of_nat cost + pdMS_TO_TICKS hz TX_BURST_GAP_MS))
     \<and> tick_ms hz (t0 + word_of_nat ((4999 + (g + s)) div (g + s)) * (word_of_nat cost + pdMS_TO_TICKS hz TX_BURST_GAP_MS))
         - tick_ms hz t0 = word_of_nat ((4999 + (g + s)) div (g + s) * (g + s))
     \<and> 5000 \<le> (4999 + (g + s)) div (g + s) * (g + s)
     \<and> (4999 + (g + s)) div (g + s) * (g + s) < 2 ^ 32
     \<and> 1 \<le> (4999 + (g + s)) div (g + s)
     \<and> (g = 500 \<longrightarrow>
          (4999 + (g + s)) div (g + s) \<le> 10
          \<and> (s \<le> 55 \<longrightarrow> (4999 + (g + s)) div (g + s) = 10)
          \<and> (s < 125 \<longrightarrow> 9 \<le> (4999 + (g + s)) div (g + s)))"
    unfolding S_def [symmetric]
    using lora_send_burst_rounds [OF S1 S0 S2, of t0] el p hi b
    by (intro conjI)
qed

text \<open>
  At 100 ticks per second, a send that takes 20 ticks (200 ms) leaves room for 8
  attempts in the window.
\<close>

theorem burst_with_slow_send: "lora_send_burst 100 20 30 = Some (8, 590)"
  by (simp add: lora_send_burst_def burst_loop.simps tick_ms_def portTICK_PERIOD_MS_def
      pdMS_TO_TICKS_def TX_BURST_WINDOW_MS_def TX_BURST_GAP_MS_def)

theorem burst_timing_witness:
  "lora_send_burst 100 0 30 = Some (10, 530) \<and> lora_send_burst 600 0 30 = Some (17, 5130)"
proof -
  have h: "(500::nat) = (1000 div 100) * (TX_BURST_GAP_MS * 100 div 1000) \<and> (0::nat) = (1000 div 100) * 0
      \<and> (0::nat) < 500 + 0 \<and> (500::nat) + 0 \<le> 2 ^ 30"
    by (simp add: TX_BURST_GAP_MS_def)
  have k: "(300::nat) = (1000 div 600) * (TX_BURST_GAP_MS * 600 div 1000) \<and> (0::nat) = (1000 div 600) * 0
      \<and> (0::nat) < 300 + 0 \<and> (300::nat) + 0 \<le> 2 ^ 30"
    by (simp add: TX_BURST_GAP_MS_def)
  from h burst_timing [of 500 100 0 0 30] have 1: "lora_send_burst 100 0 30 = Some (10, 530)"
    by (simp add: pdMS_TO_TICKS_def TX_BURST_GAP_MS_def)
  from k burst_timing [of 300 600 0 0 30] have 2: "lora_send_burst 600 0 30 = Some (17, 5130)"
    by (simp add: pdMS_TO_TICKS_def TX_BURST_GAP_MS_def)
  from 1 2 show ?thesis by (intro conjI)
qed


text \<open>
  \<^bold>\<open>C8\<close> (sampling clamp). When all 32 reads succeed \<open>read_tds_ppm\<close> returns a
  measurement, and the concentration it returns is never negative, whatever the readings
  and whatever the rounding: it is 0 when the calibration polynomial of the compensated
  voltage is negative, and the value of the polynomial otherwise.
\<close>

theorem sampling_clamp:
  "((\<forall>i<SAMPLES. adc i \<noteq> None) \<longrightarrow> (\<exists>tds v. read_tds_ppm fl adc = Inr (tds, v)))
   \<and> (read_tds_ppm fl adc = Inr (tds, v) \<longrightarrow>
        0 \<le> tds
        \<and> (tds_polynomial fl (comp_voltage_of fl v) < 0 \<longrightarrow> tds = 0)
        \<and> (0 \<le> tds_polynomial fl (comp_voltage_of fl v) \<longrightarrow>
             tds = tds_polynomial fl (comp_voltage_of fl v)))"
  using read_tds_ppm_total [of adc fl] read_tds_ppm_clamped [of fl adc tds v]
  by (auto split: if_splits)

theorem sampling_clamp_witness:
  "read_tds_ppm (\<lambda>x. x) (\<lambda>i. Some (- 1)) = Inr (0, - 11 / 13650)
   \<and> tds_polynomial (\<lambda>x. x) (comp_voltage_of (\<lambda>x. x) (- 11 / 13650)) < 0"
proof -
  have r: "read_tds_ppm (\<lambda>x. x) (\<lambda>i. Some (- 1)) = Inr (0, - 11 / 13650)"
    by (simp add: read_tds_ppm_def SAMPLES_def eval_nat_numeral float_eval)
  have n: "tds_polynomial (\<lambda>x. x) (comp_voltage_of (\<lambda>x. x) (- 11 / 13650)) < 0"
    by (simp add: float_eval)
  from sampling_clamp [of "\<lambda>i. Some (- 1)" "\<lambda>x. x" 0 "- 11 / 13650"] r n show ?thesis
    by simp
qed


text \<open>
  \<^bold>\<open>C9\<close> (fault paths). When \<open>lora_init\<close> returns 0 the boot goes
  straight to \<open>go_to_sleep\<close>: it arms the wake timer and enters deep sleep without
  configuring the radio, sampling, encoding or sending. The other faults do not take
  that path: a failing ADC call or a failing \<open>esp_sleep_enable_timer_wakeup\<close>, each
  under \<open>ESP_ERROR_CHECK\<close>, aborts the process. No step is retried within the boot:
  every run ends in deep sleep, in an abort, or inside the burst, with the radio, the
  converter, the sampling, the encoding and the deep sleep reached at most once.
\<close>

theorem radio_fault_path:
  "(lora_init_result env = 0 \<longrightarrow>
      app_main fl env =
        (if timer_wakeup_ok env then [LoraInit, TimerWakeup SLEEP_US, DeepSleep] else [LoraInit, Abort]))
   \<and> (lora_init_result env \<noteq> 0 \<and> (\<not> adc_new_unit_ok env \<or> \<not> adc_config_ok env) \<longrightarrow>
        app_main fl env = [LoraInit, LoraConfigure, AdcInit, Abort])
   \<and> (lora_init_result env \<noteq> 0 \<and> adc_new_unit_ok env \<and> adc_config_ok env
        \<and> (\<exists>i<SAMPLES. adc_read env i = None) \<longrightarrow>
        app_main fl env = [LoraInit, LoraConfigure, AdcInit, Sample, Abort])
   \<and> last (app_main fl env) \<in> {DeepSleep, Abort, BurstUnfinished}
   \<and> (\<forall>a\<in>{LoraInit, AdcInit, Sample, Encode, DeepSleep}. count_list (app_main fl env) a \<le> 1)"
proof -
  have 1: "lora_init_result env = 0 \<longrightarrow>
      app_main fl env =
        (if timer_wakeup_ok env then [LoraInit, TimerWakeup SLEEP_US, DeepSleep] else [LoraInit, Abort])"
    by (simp add: app_main_radio_fault go_to_sleep_def)
  have 2: "lora_init_result env \<noteq> 0 \<and> (\<not> adc_new_unit_ok env \<or> \<not> adc_config_ok env) \<longrightarrow>
        app_main fl env = [LoraInit, LoraConfigure, AdcInit, Abort]"
    by (auto simp add: app_main_def)
  have 3: "lora_init_result env \<noteq> 0 \<and> adc_new_unit_ok env \<and> adc_config_ok env
        \<and> (\<exists>i<SAMPLES. adc_read env i = None) \<longrightarrow>
        app_main fl env = [LoraInit, LoraConfigure, AdcInit, Sample, Abort]"
    using read_tds_ppm_fault [of "adc_read env" fl] by (auto simp add: app_main_def)
  have 5: "\<forall>a\<in>{LoraInit, AdcInit, Sample, Encode, DeepSleep}. count_list (app_main fl env) a \<le> 1"
    using app_main_once [of _ fl env] by blast
  from 1 2 3 app_main_last [of fl env] 5 show ?thesis by blast
qed

text \<open>A converter that cannot be opened ends the boot in an abort, not in deep sleep.\<close>

theorem adc_fault_aborts:
  "app_main (\<lambda>x. x) (env_ok\<lparr>adc_new_unit_ok := False\<rparr>) = [LoraInit, LoraConfigure, AdcInit, Abort]"
  by (simp add: app_main_def env_ok_def)

theorem radio_fault_path_witness:
  "app_main (\<lambda>x. x) (env_ok\<lparr>lora_init_result := 0\<rparr>) = [LoraInit, TimerWakeup SLEEP_US, DeepSleep]
   \<and> app_main (\<lambda>x. x) (env_ok\<lparr>adc_config_ok := False\<rparr>) = [LoraInit, LoraConfigure, AdcInit, Abort]
   \<and> app_main (\<lambda>x. x) (env_ok\<lparr>adc_read := (\<lambda>i. if i = 3 then None else Some 7)\<rparr>)
       = [LoraInit, LoraConfigure, AdcInit, Sample, Abort]"
proof -
  have h3: "\<exists>i<SAMPLES. adc_read (env_ok\<lparr>adc_read := (\<lambda>i. if i = 3 then None else Some 7)\<rparr>) i = None"
    by (rule exI [of _ 3]) (simp add: SAMPLES_def)
  from h3
    radio_fault_path [of "env_ok\<lparr>lora_init_result := 0\<rparr>" "\<lambda>x. x"]
    radio_fault_path [of "env_ok\<lparr>adc_config_ok := False\<rparr>" "\<lambda>x. x"]
    radio_fault_path [of "env_ok\<lparr>adc_read := (\<lambda>i. if i = 3 then None else Some 7)\<rparr>" "\<lambda>x. x"]
  show ?thesis by (simp add: env_ok_def)
qed

text \<open>
  \<^bold>\<open>C7\<close> (buffer fit). With binary32 rounding (monotone, exact on 0 and on
  powers of two) and readings in the converter's range \<open>[0, 4095]\<close>, the sampling returns
  a measurement whose payload text has at most 25 characters; \<open>snprintf\<close> writes it
  whole into the 64-byte buffer and returns its length, so the text of a measurement is
  never truncated, and every packet the boot sends carries exactly that text with its
  length. For any values at all \<open>snprintf\<close> leaves at most 63 characters in the buffer.
  When \<open>snprintf\<close> reports an output error no packet is sent in that boot; when it does
  not and the text fits, the burst sends exactly that text, with its length, and the
  boot goes on to sleep.
\<close>

theorem payload_fits:
  "(rounding fl \<and> in_range (adc_read env) \<longrightarrow>
      (\<exists>tds v. read_tds_ppm fl (adc_read env) = Inr (tds, v)
         \<and> length (payload_text tds v) \<le> 25
         \<and> snprintf_payload False 64 tds v = (payload_text tds v, int (length (payload_text tds v)))
         \<and> (\<forall>b l. SendPacket b l \<in> set (app_main fl env) \<longrightarrow>
               b = payload_text tds v \<and> l = int (length (payload_text tds v)) \<and> l < 64)))
   \<and> length (fst (snprintf_payload e 64 x y)) \<le> 63
   \<and> (snprintf_error env \<longrightarrow> (\<forall>b l. SendPacket b l \<notin> set (app_main fl env)))
   \<and> (\<not> snprintf_error env \<and> length (payload_text x y) < 64
        \<and> lora_send_burst (tick_rate_hz env) (send_cost env) (boot_ticks env) = Some (n, t) \<longrightarrow>
        encode_and_send env x y =
          Encode # replicate n (SendPacket (payload_text x y) (int (length (payload_text x y))))
            @ GraceDelay # go_to_sleep env True)"
proof (intro conjI impI)
  assume a: "rounding fl \<and> in_range (adc_read env)"
  then obtain tds v where r: "read_tds_ppm fl (adc_read env) = Inr (tds, v)"
    "0 \<le> tds" "tds \<le> 2 ^ 45" "0 \<le> v" "v \<le> 2 ^ 12"
    using read_tds_ppm_range [of fl "adc_read env"] by blast
  have "tds \<le> of_int (2 ^ 45)" "v \<le> of_int (2 ^ 12)"
    using r(3,5) by simp_all
  then have "length (payload_text tds v) \<le> 14 + 4 + 7"
    using r(2,4) by (intro payload_text_length [where m = "2 ^ 45" and w = "2 ^ 12"]) simp_all
  then have len: "length (payload_text tds v) \<le> 25" by simp
  then have fit: "length (payload_text tds v) < 64" by simp
  from len have sn: "snprintf_payload False 64 tds v = (payload_text tds v, int (length (payload_text tds v)))"
    by (simp add: snprintf_payload_def)
  have pk: "\<forall>b l. SendPacket b l \<in> set (app_main fl env) \<longrightarrow>
               b = payload_text tds v \<and> l = int (length (payload_text tds v)) \<and> l < 64"
  proof (intro allI impI)
    fix b l
    assume "SendPacket b l \<in> set (app_main fl env)"
    then have "SendPacket b l \<in> set (encode_and_send env tds v)"
      using app_main_packets [of b l fl env] r(1) by auto
    with fit have "b = payload_text tds v \<and> l = int (length (payload_text tds v))"
      by (rule encode_and_send_packets)
    with fit show "b = payload_text tds v \<and> l = int (length (payload_text tds v)) \<and> l < 64"
      by simp
  qed
  from r(1) len sn pk show "\<exists>tds v. read_tds_ppm fl (adc_read env) = Inr (tds, v)
         \<and> length (payload_text tds v) \<le> 25
         \<and> snprintf_payload False 64 tds v = (payload_text tds v, int (length (payload_text tds v)))
         \<and> (\<forall>b l. SendPacket b l \<in> set (app_main fl env) \<longrightarrow>
               b = payload_text tds v \<and> l = int (length (payload_text tds v)) \<and> l < 64)"
    by blast
next
  show "length (fst (snprintf_payload e 64 x y)) \<le> 63"
    by (simp add: snprintf_payload_def)
next
  assume e: "snprintf_error env"
  show "\<forall>b l. SendPacket b l \<notin> set (app_main fl env)"
  proof (intro allI notI)
    fix b l
    assume "SendPacket b l \<in> set (app_main fl env)"
    then obtain tds v where "SendPacket b l \<in> set (encode_and_send env tds v)"
      using app_main_packets [of b l fl env] by blast
    with encode_and_send_error [OF e, of b l tds v] show False by simp
  qed
next
  assume "\<not> snprintf_error env \<and> length (payload_text x y) < 64
        \<and> lora_send_burst (tick_rate_hz env) (send_cost env) (boot_ticks env) = Some (n, t)"
  moreover have "0 < length (payload_text x y)"
    by (simp add: payload_text_def)
  ultimately show "encode_and_send env x y =
          Encode # replicate n (SendPacket (payload_text x y) (int (length (payload_text x y))))
            @ GraceDelay # go_to_sleep env True"
    by (simp add: encode_and_send_def snprintf_payload_def)
qed

theorem payload_fits_witness:
  "read_tds_ppm (\<lambda>x. x) (\<lambda>i. Some 1000) = Inr (8641442183 / 29066310, 220 / 273)
   \<and> payload_text (8641442183 / 29066310) (220 / 273) = ''TD,297,0.81''
   \<and> length (payload_text (8641442183 / 29066310) (220 / 273)) \<le> 25
   \<and> app_main (\<lambda>x. x) env_ok
      = LoraInit # LoraConfigure # AdcInit # Sample # Encode
          # replicate 10 (SendPacket ''TD,297,0.81'' 11) @ GraceDelay # go_to_sleep env_ok True
   \<and> (\<forall>b l. SendPacket b l \<notin> set (app_main (\<lambda>x. x) (env_ok\<lparr>snprintf_error := True\<rparr>)))"
proof -
  have e: "adc_read env_ok = (\<lambda>i. Some 1000)" "lora_init_result env_ok = 1"
    "adc_new_unit_ok env_ok" "adc_config_ok env_ok"
    by (simp_all add: env_ok_def)
  have h1: "rounding (\<lambda>x. x) \<and> in_range (adc_read env_ok)"
    by (simp add: e rounding_def in_range_def mono_def)
  have rd: "read_tds_ppm (\<lambda>x. x) (\<lambda>i. Some 1000) = Inr (8641442183 / 29066310, 220 / 273)"
    by (simp add: read_tds_ppm_def SAMPLES_def eval_nat_numeral float_eval)
  have p: "payload_text (8641442183 / 29066310) (220 / 273) = ''TD,297,0.81''"
    by (simp add: format_eval)
  have b: "lora_send_burst (tick_rate_hz env_ok) (send_cost env_ok) (boot_ticks env_ok) = Some (10, 530)"
    by (simp add: env_ok_def lora_send_burst_def burst_loop.simps tick_ms_def portTICK_PERIOD_MS_def
        pdMS_TO_TICKS_def TX_BURST_WINDOW_MS_def TX_BURST_GAP_MS_def)
  have h4: "\<not> snprintf_error env_ok \<and> length (payload_text (8641442183 / 29066310) (220 / 273)) < 64
        \<and> lora_send_burst (tick_rate_hz env_ok) (send_cost env_ok) (boot_ticks env_ok) = Some (10, 530)"
    using b by (simp add: p) (simp add: env_ok_def)
  have h3: "snprintf_error (env_ok\<lparr>snprintf_error := True\<rparr>)"
    by simp
  have am: "app_main (\<lambda>x. x) env_ok
      = LoraInit # LoraConfigure # AdcInit # Sample # encode_and_send env_ok (8641442183 / 29066310) (220 / 273)"
    by (simp add: app_main_def e rd)
  from h4 payload_fits [of "\<lambda>x. x" env_ok False "8641442183 / 29066310" "220 / 273" 10 530]
  have 1: "encode_and_send env_ok (8641442183 / 29066310) (220 / 273)
      = Encode # replicate 10 (SendPacket ''TD,297,0.81'' 11) @ GraceDelay # go_to_sleep env_ok True"
    by (simp add: p)
  from h3 payload_fits [of "\<lambda>x. x" "env_ok\<lparr>snprintf_error := True\<rparr>" False 297 1 10 530]
  have 2: "\<forall>b l. SendPacket b l \<notin> set (app_main (\<lambda>x. x) (env_ok\<lparr>snprintf_error := True\<rparr>))"
    by simp
  from h1 payload_fits [of "\<lambda>x. x" env_ok False 297 1 10 530]
  have "\<exists>tds v. read_tds_ppm (\<lambda>x. x) (adc_read env_ok) = Inr (tds, v)
         \<and> length (payload_text tds v) \<le> 25"
    by blast
  then have 3: "length (payload_text (8641442183 / 29066310) (220 / 273)) \<le> 25"
    unfolding e rd by blast
  from rd p am 1 2 3 show ?thesis by simp
qed


text \<open>
  \<^bold>\<open>C2\<close> (round trip). For a measurement with both fields non-negative whose payload
  text fits the 64-byte buffer (every measurement with both fields up to \<open>10 ^ 20\<close>
  does), the receiver decodes from the bytes the transmitter formats the concentration
  rounded to the nearest integer and the voltage rounded to two decimals: the results
  are the \<open>float\<close>s of an integer within 1/2 of the concentration and of a multiple of
  1/100 within 1/200 of the voltage.
\<close>

theorem round_trip:
  "(0 \<le> tds \<and> 0 \<le> v \<and> length (payload_text tds v) < 64 \<longrightarrow>
      decode cv (cstring (fst (snprintf_payload False 64 tds v))) =
        Some (cv (Num False (of_int (round_half_even tds))),
              cv (Num False (of_int (round_half_even (v * 100)) / 100))))
   \<and> \<bar>of_int (round_half_even tds) - tds\<bar> \<le> 1 / 2
   \<and> \<bar>of_int (round_half_even (v * 100)) / 100 - v\<bar> \<le> 1 / 200
   \<and> (0 \<le> tds \<and> tds \<le> 10 ^ 20 \<and> 0 \<le> v \<and> v \<le> 10 ^ 20 \<longrightarrow> length (payload_text tds v) < 64)"
proof (intro conjI impI)
  assume a: "0 \<le> tds \<and> 0 \<le> v \<and> length (payload_text tds v) < 64"
  then have "fst (snprintf_payload False 64 tds v) = payload_text tds v"
    by (simp add: snprintf_payload_def)
  with a show "decode cv (cstring (fst (snprintf_payload False 64 tds v))) =
        Some (cv (Num False (of_int (round_half_even tds))),
              cv (Num False (of_int (round_half_even (v * 100)) / 100)))"
    by (simp add: cstring_payload_text decode_payload_text)
next
  show "\<bar>of_int (round_half_even tds) - tds\<bar> \<le> 1 / 2"
    by (rule round_half_even_near)
next
  have "\<bar>of_int (round_half_even (v * 100)) - v * 100\<bar> \<le> 1 / 2"
    by (rule round_half_even_near)
  moreover have "of_int (round_half_even (v * 100)) / 100 - v
                 = (of_int (round_half_even (v * 100)) - v * 100) / 100"
    by (simp add: diff_divide_distrib)
  then have "\<bar>of_int (round_half_even (v * 100)) / 100 - v\<bar>
                 = \<bar>of_int (round_half_even (v * 100)) - v * 100\<bar> / \<bar>100\<bar>"
    by (simp only: abs_divide)
  ultimately show "\<bar>of_int (round_half_even (v * 100)) / 100 - v\<bar> \<le> 1 / 200"
    by simp
next
  assume a: "0 \<le> tds \<and> tds \<le> 10 ^ 20 \<and> 0 \<le> v \<and> v \<le> 10 ^ 20"
  then have "tds \<le> of_int (10 ^ 20)" "v \<le> of_int (10 ^ 20)"
    by simp_all
  then have "length (payload_text tds v) \<le> 21 + 21 + 7"
    using a by (intro payload_text_length [where m = "10 ^ 20" and w = "10 ^ 20"]) simp_all
  then show "length (payload_text tds v) < 64" by simp
qed

theorem round_trip_witness:
  "decode (\<lambda>n. n) (cstring (fst (snprintf_payload False 64 (247 / 2) (1437 / 1000))))
     = Some (Num False 124, Num False (36 / 25))"
proof -
  have p: "payload_text (247 / 2) (1437 / 1000) = ''TD,124,1.44''"
    by (simp add: format_eval)
  have h: "(0::rat) \<le> 247 / 2 \<and> (0::rat) \<le> 1437 / 1000 \<and> length (payload_text (247 / 2) (1437 / 1000)) < 64"
    by (simp add: p)
  have r: "round_half_even (247 / 2) = 124" "round_half_even (1437 / 10) = 144"
    by (simp_all add: round_half_even_def Let_def floor_rat_eval)
  from h round_trip [of "247 / 2" "1437 / 1000" "\<lambda>n. n"] show ?thesis
    by (simp add: r)
qed

end
